theory Spec2Isabelle
  imports Main "HOL-Library.Word" "HOL-Library.Signed_Division"
begin

unbundle bit_operations_syntax

section \<open>Go values\<close>

text \<open>
  Fixed-width unsigned Go types are words. Go's \<^verbatim>\<open>int\<close> (64 bits on the platforms the
  library's cgo code targets) is an \<^typ>\<open>int\<close> whose arithmetic results are wrapped to the
  two's-complement range by \<open>wrap64\<close>. A slice length is a \<^typ>\<open>nat\<close>; Go guarantees that
  it fits an \<^verbatim>\<open>int\<close>, so \<open>int (length xs)\<close> is not wrapped.
\<close>

type_synonym u8 = "8 word"
type_synonym u32 = "32 word"
type_synonym u64 = "64 word"

definition wrap64 :: "int \<Rightarrow> int" where
  "wrap64 x = (x + 2 ^ 63) mod 2 ^ 64 - 2 ^ 63"

text \<open>
  A run-time panic ends the call without a result. \<open>OutOfBoundsRead\<close> and
  \<open>OutOfBoundsWrite\<close> are not Go panics: they mark an access through an unsafe pointer
  that leaves the allocated buffer.
\<close>

datatype panic =
    DivideByZero
  | IndexOutOfRange
  | SliceBounds
  | InterfaceConversion
  | NilDereference
  | GoBytesLength
  | OutOfBoundsRead
  | OutOfBoundsWrite

text \<open>Go's \<^verbatim>\<open>/\<close> and \<^verbatim>\<open>%\<close> on \<^verbatim>\<open>int\<close>: truncation towards zero, a panic on a zero divisor.\<close>

definition go_div :: "int \<Rightarrow> int \<Rightarrow> panic + int" where
  "go_div a b = (if b = 0 then Inl DivideByZero else Inr (wrap64 (a sdiv b)))"

definition go_rem :: "int \<Rightarrow> int \<Rightarrow> panic + int" where
  "go_rem a b = (if b = 0 then Inl DivideByZero else Inr (a smod b))"

text \<open>
  Errors: a \<^verbatim>\<open>syscall.Errno\<close>, a text built by \<^verbatim>\<open>errors.New\<close> (or by \<^verbatim>\<open>fmt.Errorf\<close>
  without \<^verbatim>\<open>%w\<close>), and \<^verbatim>\<open>fmt.Errorf(prefix + "%w", err)\<close>, which wraps \<open>err\<close>.
\<close>

datatype error =
    Errno nat
  | ErrorsNew string
  | Errorf string error

fun errors_Is :: "error \<Rightarrow> nat \<Rightarrow> bool" where
  "errors_Is (Errno e) target = (e = target)"
| "errors_Is (ErrorsNew m) target = False"
| "errors_Is (Errorf m err) target = errors_Is err target"

section \<open>Package flowhash: fill actions (flowhash/action.go)\<close>

type_synonym RSSContext = u32

definition ETH_RXFH_CONTEXT_ALLOC :: int where
  "ETH_RXFH_CONTEXT_ALLOC = 0xffffffff"

definition ETH_RXFH_INDIR_NO_CHANGE :: int where
  "ETH_RXFH_INDIR_NO_CHANGE = 0xffffffff"

definition IsNew :: "RSSContext \<Rightarrow> bool" where
  "IsNew c = (c = word_of_int ETH_RXFH_CONTEXT_ALLOC)"

type_synonym IndirectTable = "u32 list"

record Equal =
  Start :: int
  N :: int

record Weight =
  Start :: int
  Weights :: "int list"

text \<open>
  The interface \<^verbatim>\<open>Action\<close>: the nil interface, or a pointer of one of the four
  implementing types \<^verbatim>\<open>*Equal\<close>, \<^verbatim>\<open>*Weight\<close>, \<^verbatim>\<open>*Default\<close>, \<^verbatim>\<open>*Delete\<close>. The pointer
  is \<open>None\<close> when it is nil, \<open>Some\<close> of the struct it points to otherwise.
\<close>

datatype Action =
    Action_nil
  | Action_Equal "Equal option"
  | Action_Weight "Weight option"
  | Action_Default "unit option"
  | Action_Delete "unit option"

text \<open>
  \<^verbatim>\<open>Fill\<close> writes the table in place and returns \<^verbatim>\<open>(int, error)\<close>; the model returns the
  table after the call with both results, or the panic.
\<close>

type_synonym fill_result = "panic + (IndirectTable \<times> int \<times> error option)"

function Equal_Fill_loop :: "Equal \<Rightarrow> nat \<Rightarrow> IndirectTable \<Rightarrow> panic + IndirectTable" where
  "Equal_Fill_loop e i table =
     (if i < length table then
        (case go_rem (int i) (N e) of
           Inl p \<Rightarrow> Inl p
         | Inr r \<Rightarrow>
             Equal_Fill_loop e (Suc i)
               (table[i := word_of_int (wrap64 (Equal.Start e + r))]))
      else Inr table)"
  by pat_completeness auto
termination
  by (relation "measure (\<lambda>(e, i, table). length table - i)") auto

definition Equal_Fill :: "Equal \<Rightarrow> IndirectTable \<Rightarrow> fill_result" where
  "Equal_Fill e table =
     (case Equal_Fill_loop e 0 table of
        Inl p \<Rightarrow> Inl p
      | Inr t \<Rightarrow> Inr (t, int (length t), None))"

text \<open>
  The inner \<^verbatim>\<open>for i >= len(table)*partial/sum\<close> loop of \<^verbatim>\<open>Weight.Fill\<close>, from the values of
  \<open>j\<close> and \<open>partial\<close> on entry to their values on exit, or the panic of \<^verbatim>\<open>w.Weights[j]\<close>. The
  index \<open>j\<close> never exceeds a slice length, so \<open>j + 1\<close> is not wrapped; the product and the sum
  are.
\<close>

function Weight_Fill_inner ::
  "Weight \<Rightarrow> int \<Rightarrow> int \<Rightarrow> int \<Rightarrow> int \<Rightarrow> int \<Rightarrow> panic + (int \<times> int)" where
  "Weight_Fill_inner w len sumw i j partial =
     (case go_div (wrap64 (len * partial)) sumw of
        Inl p \<Rightarrow> Inl p
      | Inr q \<Rightarrow>
          if i \<ge> q then
            (if 0 \<le> j + 1 \<and> j + 1 < int (length (Weights w))
             then Weight_Fill_inner w len sumw i (j + 1)
                    (wrap64 (partial + Weights w ! nat (j + 1)))
             else Inl IndexOutOfRange)
          else Inr (j, partial))"
  by pat_completeness auto
termination
  by (relation "measure (\<lambda>(w, len, sumw, i, j, partial). nat (int (length (Weights w)) - j))") auto

function Weight_Fill_loop ::
  "Weight \<Rightarrow> int \<Rightarrow> nat \<Rightarrow> int \<Rightarrow> int \<Rightarrow> IndirectTable \<Rightarrow> panic + IndirectTable" where
  "Weight_Fill_loop w sumw i j partial table =
     (if i < length table then
        (case Weight_Fill_inner w (int (length table)) sumw (int i) j partial of
           Inl p \<Rightarrow> Inl p
         | Inr (j', partial') \<Rightarrow>
             Weight_Fill_loop w sumw (Suc i) j' partial'
               (table[i := word_of_int (wrap64 (Weight.Start w + j'))]))
      else Inr table)"
  by pat_completeness auto
termination
  by (relation "measure (\<lambda>(w, sumw, i, j, partial, table). length table - i)") auto

definition Weight_sum :: "Weight \<Rightarrow> int" where
  "Weight_sum w = foldl (\<lambda>sumw n. wrap64 (sumw + n)) 0 (Weights w)"

definition Weight_Fill :: "Weight \<Rightarrow> IndirectTable \<Rightarrow> fill_result" where
  "Weight_Fill w table =
     (let sumw = Weight_sum w in
      if sumw = 0 then
        Inr (table, 0, Some (ErrorsNew ''At least one weight must be non-zero''))
      else if sumw > int (length table) then
        Inr (table, 0,
          Some (ErrorsNew ''Total weight exceeds the size of the indirection table''))
      else
        (case Weight_Fill_loop w sumw 0 (- 1) 0 table of
           Inl p \<Rightarrow> Inl p
         | Inr t \<Rightarrow> Inr (t, int (length t), None)))"

definition Default_Fill :: "IndirectTable \<Rightarrow> fill_result" where
  "Default_Fill table = Inr (table, 0, None)"

definition Delete_Fill :: "IndirectTable \<Rightarrow> fill_result" where
  "Delete_Fill table = Inr (table, ETH_RXFH_INDIR_NO_CHANGE, None)"


text \<open>
  Method dispatch through the interface. A call on the nil interface panics; with a nil
  receiver \<^verbatim>\<open>Equal.Fill\<close> panics at its first \<^verbatim>\<open>e.Start\<close> (so only when the table is not
  empty), \<^verbatim>\<open>Weight.Fill\<close> at \<^verbatim>\<open>w.Weights\<close>; the other two never read their receiver.
\<close>

fun Fill :: "Action \<Rightarrow> IndirectTable \<Rightarrow> fill_result" where
  "Fill Action_nil table = Inl NilDereference"
| "Fill (Action_Equal (Some e)) table = Equal_Fill e table"
| "Fill (Action_Equal None) table =
     (if table = [] then Inr (table, 0, None) else Inl NilDereference)"
| "Fill (Action_Weight (Some w)) table = Weight_Fill w table"
| "Fill (Action_Weight None) table = Inl NilDereference"
| "Fill (Action_Default d) table = Default_Fill table"
| "Fill (Action_Delete d) table = Delete_Fill table"

section \<open>Package flowhash: configuration (\<^verbatim>\<open>Config\<close>, \<^verbatim>\<open>SetConfig\<close> and their options)\<close>

record Config =
  Context :: RSSContext

type_synonym Option = "Config \<Rightarrow> Config"

definition NewConfig :: "Option list \<Rightarrow> Config" where
  "NewConfig opts = foldl (\<lambda>c opt. opt c) \<lparr>Config.Context = 0\<rparr> opts"

definition WithRSSContext :: "RSSContext \<Rightarrow> Option" where
  "WithRSSContext context = (\<lambda>c. c\<lparr>Config.Context := context\<rparr>)"

record SetConfig =
  Key :: "u8 list"
  Func :: string
  Context :: RSSContext
  Action :: Action

type_synonym SetOption = "SetConfig \<Rightarrow> SetConfig"

definition NewSetConfig :: "SetOption list \<Rightarrow> SetConfig" where
  "NewSetConfig opts =
     foldl (\<lambda>c opt. opt c)
       \<lparr>Key = [], Func = [], Context = 0, Action = Action_nil\<rparr> opts"

definition WithHashKey :: "u8 list \<Rightarrow> SetOption" where
  "WithHashKey key = (\<lambda>c. c\<lparr>Key := key\<rparr>)"

definition WithHashFunc :: "string \<Rightarrow> SetOption" where
  "WithHashFunc fn = (\<lambda>c. c\<lparr>Func := fn\<rparr>)"

definition WithContext :: "RSSContext \<Rightarrow> SetOption" where
  "WithContext context = (\<lambda>c. c\<lparr>SetConfig.Context := context\<rparr>)"

definition NewContext :: "RSSContext \<Rightarrow> SetOption" where
  "NewContext context = (\<lambda>c. c\<lparr>SetConfig.Context := word_of_int ETH_RXFH_CONTEXT_ALLOC\<rparr>)"

definition WithAction :: "Action \<Rightarrow> SetOption" where
  "WithAction action = (\<lambda>c. c\<lparr>Action := action\<rparr>)"

definition DeleteContext :: "RSSContext \<Rightarrow> SetOption" where
  "DeleteContext context = (\<lambda>c. c\<lparr>SetConfig.Context := context, Action := Action_Delete (Some ())\<rparr>)"


section \<open>Package flowhash: the indirection table\<close>

definition IndirectTableItemSize :: nat where
  "IndirectTableItemSize = 4"

definition IndirectTableSize :: "u32 \<Rightarrow> nat" where
  "IndirectTableSize n = IndirectTableItemSize * unat n"

definition NewIndirectTable :: "nat \<Rightarrow> IndirectTable" where
  "NewIndirectTable n = replicate n 0"

definition Size :: "IndirectTable \<Rightarrow> nat" where
  "Size t = length t * IndirectTableItemSize"

text \<open>
  Memory reached through an unsafe pointer is the list of the bytes from the pointer to
  the end of its allocation; a \<^verbatim>\<open>uint32\<close> lies there in the host's little-endian order.
  \<^verbatim>\<open>UnsafeRawIndirectTable(ptr, len)\<close> slices an array of \<open>2^24\<close> entries placed at \<open>ptr\<close>:
  it panics beyond that bound and reads no memory; the view it returns is the pair of
  the memory and the length.
\<close>

definition le_u32 :: "u8 list \<Rightarrow> u32" where
  "le_u32 bs = foldr (\<lambda>b acc. ucast b OR push_bit 8 acc) bs 0"

definition u32_le :: "u32 \<Rightarrow> u8 list" where
  "u32_le x = map (\<lambda>k. ucast (drop_bit (8 * k) x)) [0, 1, 2, 3]"

type_synonym raw_table = "u8 list \<times> nat"

definition UnsafeRawIndirectTable :: "u8 list \<Rightarrow> nat \<Rightarrow> panic + raw_table" where
  "UnsafeRawIndirectTable ptr len =
     (if len > 2 ^ 24 then Inl SliceBounds else Inr (ptr, len))"

definition raw_elems :: "u8 list \<Rightarrow> nat \<Rightarrow> IndirectTable" where
  "raw_elems ptr n = map (\<lambda>k. le_u32 (take 4 (drop (4 * k) ptr))) [0..<n]"

text \<open>\<^verbatim>\<open>copy(table, raw)\<close>: the first \<open>min (len table) (len raw)\<close> entries are read and stored.\<close>

definition copy_raw :: "IndirectTable \<Rightarrow> raw_table \<Rightarrow> panic + IndirectTable" where
  "copy_raw table raw =
     (case raw of (ptr, len) \<Rightarrow>
        let n = min (length table) len in
        if 4 * n \<le> length ptr then Inr (raw_elems ptr n @ drop n table)
        else Inl OutOfBoundsRead)"

text \<open>
  \<^verbatim>\<open>Fill\<close> on a raw view stores into the memory under it. A view that reaches beyond the
  allocation reads as zero there, and a table that \<^verbatim>\<open>Fill\<close> changed cannot be stored
  through it.
\<close>

definition Fill_raw :: "Action \<Rightarrow> raw_table \<Rightarrow> panic + (u8 list \<times> int \<times> error option)" where
  "Fill_raw a raw =
     (case raw of (ptr, len) \<Rightarrow>
        let table = raw_elems (ptr @ replicate (4 * len) 0) len in
        case Fill a table of
          Inl p \<Rightarrow> Inl p
        | Inr (t, n, err) \<Rightarrow>
            if t = table then Inr (ptr, n, err)
            else if 4 * len \<le> length ptr
            then Inr (concat (map u32_le t) @ drop (4 * len) ptr, n, err)
            else Inl OutOfBoundsWrite)"

text \<open>\<^verbatim>\<open>C.GoBytes(ptr + off, C.int(n))\<close> and \<^verbatim>\<open>C.memcpy(ptr + off, src, len(src))\<close>.\<close>

definition GoBytes :: "u8 list \<Rightarrow> nat \<Rightarrow> nat \<Rightarrow> panic + u8 list" where
  "GoBytes ptr off n =
     (if n \<ge> 2 ^ 31 then Inl GoBytesLength
      else if off + n \<le> length ptr then Inr (take n (drop off ptr))
      else Inl OutOfBoundsRead)"

definition memcpy :: "u8 list \<Rightarrow> nat \<Rightarrow> u8 list \<Rightarrow> panic + u8 list" where
  "memcpy ptr off src =
     (if off + length src \<le> length ptr
      then Inr (take off ptr @ src @ drop (off + length src) ptr)
      else Inl OutOfBoundsWrite)"

record FlowHash =
  RingCount :: int
  Key :: "u8 list option"
  Funcs :: "(string \<rightharpoonup> bool) option"
  Table :: IndirectTable

section \<open>Package ethtool: the ioctl transport\<close>

definition IFNAMSIZ :: nat where "IFNAMSIZ = 16"
definition ETH_GSTRING_LEN :: nat where "ETH_GSTRING_LEN = 32"
definition MAX_GSTRINGS :: nat where "MAX_GSTRINGS = 32768"
definition ETH_SS_RSS_HASH_FUNCS :: u32 where "ETH_SS_RSS_HASH_FUNCS = 5"

definition ETHTOOL_GDRVINFO :: u32 where "ETHTOOL_GDRVINFO = 0x03"
definition ETHTOOL_GSTRINGS :: u32 where "ETHTOOL_GSTRINGS = 0x1b"
definition ETHTOOL_GRXRINGS :: u32 where "ETHTOOL_GRXRINGS = 0x2d"
definition ETHTOOL_GSSET_INFO :: u32 where "ETHTOOL_GSSET_INFO = 0x37"
definition ETHTOOL_GRXFHINDIR :: u32 where "ETHTOOL_GRXFHINDIR = 0x38"
definition ETHTOOL_SRXFHINDIR :: u32 where "ETHTOOL_SRXFHINDIR = 0x39"
definition ETHTOOL_GRSSH :: u32 where "ETHTOOL_GRSSH = 0x46"
definition ETHTOOL_SRSSH :: u32 where "ETHTOOL_SRSSH = 0x47"

definition EOPNOTSUPP :: nat where "EOPNOTSUPP = 95"
definition ENOTSUP :: nat where "ENOTSUP = 95"
definition ERANGE :: nat where "ERANGE = 34"

record ethtoolRxfh =
  cmd :: u32
  rss_context :: u32
  indir_size :: u32
  key_size :: u32
  hfunc :: u8
  rsvd8 :: "u8 list"
  rsvd32 :: u32

record ethtoolRxfhIndir =
  cmd :: u32
  size' :: u32

record ethtoolRxnfc =
  cmd :: u32
  flow_type :: u32
  data :: u64
  fs :: "u8 list"
  rule_cnt_or_rss_context :: u32

record ethtoolSsetInfo =
  cmd :: u32
  reserved :: u32
  sset_mask :: u32
  data :: u64

text \<open>
  The \<^verbatim>\<open>data\<close> array of \<^verbatim>\<open>ethtoolGStrings\<close> has \<open>MAX_GSTRINGS * ETH_GSTRING_LEN\<close> bytes,
  all zero before the call; the record holds the bytes the device stored at its start.
\<close>

record ethtoolGStrings =
  cmd :: u32
  string_set :: u32
  len :: u32
  data :: string

text \<open>
  What \<^verbatim>\<open>ifr_data\<close> points to: the struct and, for the two variable-length requests, the
  bytes allocated after it. \<^verbatim>\<open>ethtoolDrvInfo\<close> is kept as its 196 bytes of memory.
\<close>

datatype buffer =
    Rxnfc ethtoolRxnfc
  | Rxfh ethtoolRxfh "u8 list"
  | RxfhIndir ethtoolRxfhIndir "u8 list"
  | SsetInfo ethtoolSsetInfo
  | GStrings ethtoolGStrings
  | DrvInfo "u8 list"

record ifreq =
  ifr_name :: string
  ifr_data :: buffer

text \<open>
  The kernel behind the handle's socket: from its state and the request it gives the next
  state, the errno (0 for success) and what it stored in the buffer. The world of a call
  is the kernel's state and the requests issued so far.
\<close>

type_synonym 's kernel = "'s \<Rightarrow> ifreq \<Rightarrow> 's \<times> nat \<times> buffer"

record 's world =
  state :: 's
  trace :: "ifreq list"

text \<open>
  The kernel stores into the caller's buffer and cannot resize it: the trailing bytes it
  gives overwrite the buffer's from the start, up to the buffer's length.
\<close>

definition overlay :: "'a list \<Rightarrow> 'a list \<Rightarrow> 'a list" where
  "overlay old new = take (length old) new @ drop (length new) old"

fun writeback :: "buffer \<Rightarrow> buffer \<Rightarrow> buffer" where
  "writeback (Rxnfc a) (Rxnfc b) = Rxnfc b"
| "writeback (Rxfh a m) (Rxfh b m') = Rxfh b (overlay m m')"
| "writeback (RxfhIndir a m) (RxfhIndir b m') = RxfhIndir b (overlay m m')"
| "writeback (SsetInfo a) (SsetInfo b) = SsetInfo b"
| "writeback (GStrings a) (GStrings b) = GStrings b"
| "writeback (DrvInfo m) (DrvInfo m') = DrvInfo (overlay m m')"
| "writeback a b = a"

definition ioctl ::
  "'s kernel \<Rightarrow> 's world \<Rightarrow> string \<Rightarrow> buffer \<Rightarrow> 's world \<times> error option \<times> buffer" where
  "ioctl K e intf data' =
     (let ifr = \<lparr>ifr_name = take IFNAMSIZ (intf @ replicate IFNAMSIZ (CHR 0x00)),
                 ifr_data = data'\<rparr>
      in case K (state e) ifr of
           (s, ep, out) \<Rightarrow>
             (\<lparr>state = s, trace = trace e @ [ifr]\<rparr>,
              (if ep \<noteq> 0 then Some (Errno ep) else None),
              writeback data' out))"

fun as_Rxnfc :: "buffer \<Rightarrow> ethtoolRxnfc" where
  "as_Rxnfc (Rxnfc a) = a"
| "as_Rxnfc b =
     \<lparr>ethtoolRxnfc.cmd = 0, flow_type = 0, data = 0, fs = [], rule_cnt_or_rss_context = 0\<rparr>"

definition ethtoolRxfh_zero :: ethtoolRxfh where
  "ethtoolRxfh_zero =
     \<lparr>ethtoolRxfh.cmd = 0, rss_context = 0, indir_size = 0, key_size = 0, hfunc = 0,
      rsvd8 = [0, 0, 0], rsvd32 = 0\<rparr>"

fun as_Rxfh :: "buffer \<Rightarrow> ethtoolRxfh \<times> u8 list" where
  "as_Rxfh (Rxfh a m) = (a, m)"
| "as_Rxfh b = (ethtoolRxfh_zero, [])"

fun as_RxfhIndir :: "buffer \<Rightarrow> ethtoolRxfhIndir \<times> u8 list" where
  "as_RxfhIndir (RxfhIndir a m) = (a, m)"
| "as_RxfhIndir b = (\<lparr>ethtoolRxfhIndir.cmd = 0, size' = 0\<rparr>, [])"

fun as_SsetInfo :: "buffer \<Rightarrow> ethtoolSsetInfo" where
  "as_SsetInfo (SsetInfo a) = a"
| "as_SsetInfo b = \<lparr>ethtoolSsetInfo.cmd = 0, reserved = 0, sset_mask = 0, data = 0\<rparr>"

fun as_GStrings :: "buffer \<Rightarrow> ethtoolGStrings" where
  "as_GStrings (GStrings a) = a"
| "as_GStrings b = \<lparr>ethtoolGStrings.cmd = 0, string_set = 0, len = 0, data = []\<rparr>"

fun as_DrvInfo :: "buffer \<Rightarrow> u8 list" where
  "as_DrvInfo (DrvInfo m) = m"
| "as_DrvInfo b = []"

text \<open>The outcome of a Go function that returns a value and an error, or panics.\<close>

datatype 'a result = Panic panic | Err error | Ok 'a

section \<open>Package ethtool: string sets\<close>

text \<open>\<^verbatim>\<open>%d\<close> of a non-negative number.\<close>

function show_nat :: "nat \<Rightarrow> string" where
  "show_nat n =
     (if n < 10 then [char_of (48 + n)]
      else show_nat (n div 10) @ [char_of (48 + n mod 10)])"
  by pat_completeness auto
termination
  by (relation "measure (\<lambda>n. n)") auto

definition goString :: "string \<Rightarrow> string" where
  "goString s = takeWhile (\<lambda>c. c \<noteq> CHR 0x00) s"

definition getDriverInfo :: "'s kernel \<Rightarrow> 's world \<Rightarrow> string \<Rightarrow> 's world \<times> u8 list result" where
  "getDriverInfo K e intf =
     (let drvinfo = u32_le ETHTOOL_GDRVINFO @ replicate 192 0 in
      case ioctl K e intf (DrvInfo drvinfo) of
        (e1, Some err, b) \<Rightarrow> (e1, Err err)
      | (e1, None, b) \<Rightarrow> (e1, Ok (as_DrvInfo b)))"

text \<open>Entry \<open>i\<close> of the \<^verbatim>\<open>data\<close> array: \<^verbatim>\<open>data[i*ETH_GSTRING_LEN : i*ETH_GSTRING_LEN+ETH_GSTRING_LEN]\<close>.\<close>

definition gstring_slot :: "string \<Rightarrow> nat \<Rightarrow> string" where
  "gstring_slot d i =
     take ETH_GSTRING_LEN
       (drop (i * ETH_GSTRING_LEN) d @ replicate ETH_GSTRING_LEN (CHR 0x00))"

definition StringSet_loop :: "string \<Rightarrow> nat \<Rightarrow> (string \<rightharpoonup> nat)" where
  "StringSet_loop d n =
     foldl (\<lambda>result i.
              let key = goString (gstring_slot d i)
              in if key \<noteq> [] then result(key \<mapsto> i) else result)
       Map.empty [0..<n]"

text \<open>
  The first half of \<^verbatim>\<open>getStringSet\<close>: the number of strings, from \<^verbatim>\<open>ETHTOOL_GSSET_INFO\<close>
  or, when that is not supported and an offset is given, from the driver information.
  The parameter \<open>test\<close> is the test for \<^verbatim>\<open>EOPNOTSUPP\<close>, which is the only difference between
  the two versions of \<^verbatim>\<open>getStringSet\<close> in the repository.
\<close>

definition getStringSet_length ::
  "(error \<Rightarrow> nat \<Rightarrow> bool) \<Rightarrow> 's kernel \<Rightarrow> 's world \<Rightarrow> string \<Rightarrow> u32 \<Rightarrow> nat \<Rightarrow>
   's world \<times> u32 result" where
  "getStringSet_length test K e intf ss drvinfoOffset =
     (let ssetInfo =
            \<lparr>ethtoolSsetInfo.cmd = ETHTOOL_GSSET_INFO, reserved = 0,
             sset_mask = push_bit (unat ss) 1, data = 0\<rparr>
      in case ioctl K e intf (SsetInfo ssetInfo) of
           (e1, None, b) \<Rightarrow>
             (e1, Ok (if sset_mask (as_SsetInfo b) \<noteq> 0
                      then ucast (ethtoolSsetInfo.data (as_SsetInfo b)) else 0))
         | (e1, Some err, b) \<Rightarrow>
             if test err EOPNOTSUPP \<and> drvinfoOffset \<noteq> 0 then
               (case getDriverInfo K e1 intf of
                  (e2, Panic p) \<Rightarrow> (e2, Panic p)
                | (e2, Err err2) \<Rightarrow> (e2, Err err2)
                | (e2, Ok drvinfo) \<Rightarrow>
                    if drvinfoOffset + 4 \<le> length drvinfo
                    then (e2, Ok (le_u32 (take 4 (drop drvinfoOffset drvinfo))))
                    else (e2, Panic OutOfBoundsRead))
             else (e1, Err err))"

definition getStringSet_strings ::
  "'s kernel \<Rightarrow> 's world \<Rightarrow> string \<Rightarrow> u32 \<Rightarrow> u32 \<Rightarrow>
   's world \<times> (string \<rightharpoonup> nat) option result" where
  "getStringSet_strings K e intf ss length' =
     (if length' = 0 then (e, Ok None)
      else if unat length' > MAX_GSTRINGS then
        (e, Err (ErrorsNew
           (''ethtool currently doesn't support more than '' @ show_nat MAX_GSTRINGS @
            '' entries, received '' @ show_nat (unat length'))))
      else
        (let gstrings =
               \<lparr>ethtoolGStrings.cmd = ETHTOOL_GSTRINGS, string_set = ss, len = length',
                data = []\<rparr>
         in case ioctl K e intf (GStrings gstrings) of
              (e1, Some err, b) \<Rightarrow> (e1, Err err)
            | (e1, None, b) \<Rightarrow>
                (e1, Ok (Some (StringSet_loop (ethtoolGStrings.data (as_GStrings b))
                                 (unat length'))))))"

definition getStringSet_with ::
  "(error \<Rightarrow> nat \<Rightarrow> bool) \<Rightarrow> 's kernel \<Rightarrow> 's world \<Rightarrow> string \<Rightarrow> u32 \<Rightarrow> nat \<Rightarrow>
   's world \<times> (string \<rightharpoonup> nat) option result" where
  "getStringSet_with test K e intf ss drvinfoOffset =
     (case getStringSet_length test K e intf ss drvinfoOffset of
        (e1, Panic p) \<Rightarrow> (e1, Panic p)
      | (e1, Err err) \<Rightarrow> (e1, Err err)
      | (e1, Ok length') \<Rightarrow> getStringSet_strings K e1 intf ss length')"

text \<open>The refactored file tests \<^verbatim>\<open>errors.Is(err, syscall.EOPNOTSUPP)\<close>.\<close>

definition getStringSet ::
  "'s kernel \<Rightarrow> 's world \<Rightarrow> string \<Rightarrow> u32 \<Rightarrow> nat \<Rightarrow>
   's world \<times> (string \<rightharpoonup> nat) option result" where
  "getStringSet = getStringSet_with errors_Is"

text \<open>
  The map \<^verbatim>\<open>funcs\<close> that both versions of \<^verbatim>\<open>GetFlowHash\<close> build from the names:
  \<^verbatim>\<open>funcs[name] = (rss.hfunc & (1 << i)) != 0\<close> for every \<^verbatim>\<open>name, i\<close> of the string set (none
  for the nil map).
\<close>

definition funcs_of :: "u8 \<Rightarrow> (string \<rightharpoonup> nat) option \<Rightarrow> (string \<rightharpoonup> bool)" where
  "funcs_of h hfuncs =
     (case hfuncs of
        None \<Rightarrow> Map.empty
      | Some m \<Rightarrow> (\<lambda>name. map_option (\<lambda>i. h AND push_bit i 1 \<noteq> 0) (m name)))"

section \<open>Package ethtool: \<^verbatim>\<open>GetFlowHash\<close> (refactored, with package flowhash)\<close>

definition sizeofEthtoolRxfh :: nat where
  "sizeofEthtoolRxfh = 24"

definition sizeofEthtoolRxfhIndir :: nat where
  "sizeofEthtoolRxfhIndir = 8"

text \<open>\<^verbatim>\<open>C.calloc(1, sz)\<close> seen as the struct and the bytes after it, all zero.\<close>

definition calloc :: "nat \<Rightarrow> nat \<Rightarrow> u8 list" where
  "calloc header sz = replicate (sz - header) 0"

definition ethtoolRxnfc_GRXRINGS :: ethtoolRxnfc where
  "ethtoolRxnfc_GRXRINGS =
     \<lparr>ethtoolRxnfc.cmd = ETHTOOL_GRXRINGS, flow_type = 0, data = 0, fs = [],
      rule_cnt_or_rss_context = 0\<rparr>"

text \<open>
  The two \<^verbatim>\<open>ETHTOOL_GRSSH\<close> requests: the header-only probe \<^verbatim>\<open>rssHead\<close> for a context, and
  the request \<^verbatim>\<open>rss\<close> of \<open>sz\<close> zeroed bytes that carries the probed sizes.
\<close>

definition GRSSH_probe :: "u32 \<Rightarrow> buffer" where
  "GRSSH_probe context =
     Rxfh (ethtoolRxfh_zero\<lparr>ethtoolRxfh.cmd := ETHTOOL_GRSSH, rss_context := context\<rparr>) []"

definition GRSSH_query :: "u32 \<Rightarrow> ethtoolRxfh \<Rightarrow> nat \<Rightarrow> buffer" where
  "GRSSH_query context rssHead sz =
     Rxfh (ethtoolRxfh_zero\<lparr>ethtoolRxfh.cmd := ETHTOOL_GRSSH, rss_context := context,
                             indir_size := indir_size rssHead,
                             key_size := key_size rssHead\<rparr>)
       (calloc sizeofEthtoolRxfh sz)"

text \<open>
  The legacy query. The second call passes \<^verbatim>\<open>&indirHead\<close>, the header of the first call with
  no bytes after it, as the source does; \<^verbatim>\<open>indir\<close> and the memory \<open>mem\<close> allocated after it are
  only read. (What a kernel stores beyond the 8 bytes of \<^verbatim>\<open>indirHead\<close> is outside the buffer and
  outside this model.)
\<close>

definition getFlowHashIndirectTable ::
  "'s kernel \<Rightarrow> 's world \<Rightarrow> string \<Rightarrow> 's world \<times> IndirectTable result" where
  "getFlowHashIndirectTable K e intf =
     (case ioctl K e intf
             (RxfhIndir \<lparr>ethtoolRxfhIndir.cmd = ETHTOOL_GRXFHINDIR, size' = 0\<rparr> []) of
        (e1, Some err, b) \<Rightarrow>
          (e1, Err (Errorf ''get RX flow hash indirection table size, '' err))
      | (e1, None, b) \<Rightarrow>
          let indirHead = fst (as_RxfhIndir b);
              table = NewIndirectTable (unat (size' indirHead));
              sz = sizeofEthtoolRxfhIndir + Size table;
              mem = calloc sizeofEthtoolRxfhIndir sz;
              indir = \<lparr>ethtoolRxfhIndir.cmd = ETHTOOL_GRXFHINDIR, size' = size' indirHead\<rparr>
          in case ioctl K e1 intf (RxfhIndir indirHead []) of
               (e2, Some err, b2) \<Rightarrow>
                 (e2, Err (Errorf ''get RX flow hash indirection table, '' err))
             | (e2, None, b2) \<Rightarrow>
                 if size' indir = 0 then (e2, Err (Errno ENOTSUP))
                 else if sizeofEthtoolRxfhIndir + Size table > sz then
                   (e2, Err (Errorf ''get RX flow indirect table, '' (Errno ERANGE)))
                 else
                   (case UnsafeRawIndirectTable mem (unat (size' indir)) of
                      Inl p \<Rightarrow> (e2, Panic p)
                    | Inr raw \<Rightarrow>
                        (case copy_raw table raw of
                           Inl p \<Rightarrow> (e2, Panic p)
                         | Inr table' \<Rightarrow> (e2, Ok table'))))"

text \<open>
  The part of \<^verbatim>\<open>GetFlowHash\<close> after the full-size \<^verbatim>\<open>ETHTOOL_GRSSH\<close> call has succeeded:
  \<open>table\<close> and \<open>sz\<close> are from before the call, \<open>rss\<close> and \<open>mem\<close> are the header and the
  bytes after it as the device left them.
\<close>

definition GetFlowHash_decode ::
  "'s kernel \<Rightarrow> 's world \<Rightarrow> string \<Rightarrow> int \<Rightarrow> IndirectTable \<Rightarrow> nat \<Rightarrow> ethtoolRxfh \<Rightarrow> u8 list \<Rightarrow>
   's world \<times> FlowHash result" where
  "GetFlowHash_decode K e intf ringCount table sz rss mem =
     (if sizeofEthtoolRxfh + Size table > sz then
        (e, Err (Errorf ''get RX flow indirect table, '' (Errno ERANGE)))
      else
        (case UnsafeRawIndirectTable mem (unat (indir_size rss)) of
           Inl p \<Rightarrow> (e, Panic p)
         | Inr raw \<Rightarrow>
        (case copy_raw table raw of
           Inl p \<Rightarrow> (e, Panic p)
         | Inr table' \<Rightarrow>
        (case (if key_size rss > 0 then
                 (let off = sizeofEthtoolRxfh + Size table' in
                  if off + unat (key_size rss) > sz then Err (Errno ERANGE)
                  else (case GoBytes mem (off - sizeofEthtoolRxfh) (unat (key_size rss)) of
                          Inl p \<Rightarrow> Panic p
                        | Inr bs \<Rightarrow> Ok (Some bs)))
               else Ok None) of
           Panic p \<Rightarrow> (e, Panic p)
         | Err err \<Rightarrow> (e, Err err)
         | Ok key \<Rightarrow>
             if hfunc rss = 0 then (e, Err (Errno ENOTSUP))
             else
               (case getStringSet K e intf ETH_SS_RSS_HASH_FUNCS 0 of
                  (e1, Panic p) \<Rightarrow> (e1, Panic p)
                | (e1, Err err) \<Rightarrow> (e1, Err (Errorf ''get hash functions names, '' err))
                | (e1, Ok hfuncs) \<Rightarrow>
                    (e1, Ok \<lparr>RingCount = ringCount, Key = key,
                             Funcs = Some (funcs_of (hfunc rss) hfuncs),
                             Table = table'\<rparr>))))))"

definition GetFlowHash ::
  "'s kernel \<Rightarrow> 's world \<Rightarrow> string \<Rightarrow> Option list \<Rightarrow> 's world \<times> FlowHash result" where
  "GetFlowHash K e intf opts =
     (let o' = NewConfig opts in
      case ioctl K e intf (Rxnfc ethtoolRxnfc_GRXRINGS) of
        (e1, Some err, b) \<Rightarrow> (e1, Err (Errorf ''get RX ring count, '' err))
      | (e1, None, b) \<Rightarrow>
      let ringCount = as_Rxnfc b in
      case ioctl K e1 intf (GRSSH_probe (Config.Context o')) of
        (e2, Some err, b2) \<Rightarrow>
          if errors_Is err EOPNOTSUPP \<and> Config.Context o' \<noteq> 0 then
            (case getFlowHashIndirectTable K e2 intf of
               (e3, Panic p) \<Rightarrow> (e3, Panic p)
             | (e3, Err err3) \<Rightarrow> (e3, Err err3)
             | (e3, Ok table) \<Rightarrow>
                 (e3, Ok \<lparr>RingCount = sint (ethtoolRxnfc.data ringCount), Key = None,
                          Funcs = None, Table = table\<rparr>))
          else (e2, Err (Errorf ''get RX flow hash indir size and/or key size, '' err))
      | (e2, None, b2) \<Rightarrow>
      let rssHead = fst (as_Rxfh b2);
          table = NewIndirectTable (unat (indir_size rssHead));
          sz = sizeofEthtoolRxfh + Size table + unat (key_size rssHead)
      in case ioctl K e2 intf (GRSSH_query (Config.Context o') rssHead sz) of
           (e3, Some err, b3) \<Rightarrow> (e3, Err (Errorf ''get RX flow hash configuration, '' err))
         | (e3, None, b3) \<Rightarrow>
             GetFlowHash_decode K e3 intf (sint (ethtoolRxnfc.data ringCount)) table sz
               (fst (as_Rxfh b3)) (snd (as_Rxfh b3)))"

section \<open>Package ethtool: \<^verbatim>\<open>SetFlowHash\<close>\<close>

text \<open>
  The type assertions \<^verbatim>\<open>c.Action.(*flowhash.Equal)\<close>, \<^verbatim>\<open>c.Action.(*flowhash.Weight)\<close> and
  \<^verbatim>\<open>c.Action.(*flowhash.Delete)\<close> in their one-result form: the pointer when the dynamic
  type is the asserted one, a run-time panic for any other dynamic type and for the nil
  interface.
\<close>

fun assert_Equal :: "Action \<Rightarrow> panic + Equal option" where
  "assert_Equal (Action_Equal p) = Inr p"
| "assert_Equal a = Inl InterfaceConversion"

fun assert_Weight :: "Action \<Rightarrow> panic + Weight option" where
  "assert_Weight (Action_Weight p) = Inr p"
| "assert_Weight a = Inl InterfaceConversion"

fun assert_Delete :: "Action \<Rightarrow> panic + unit option" where
  "assert_Delete (Action_Delete p) = Inr p"
| "assert_Delete a = Inl InterfaceConversion"

definition setFlowHashIndirect ::
  "'s kernel \<Rightarrow> 's world \<Rightarrow> string \<Rightarrow> SetConfig \<Rightarrow> 's world \<times> unit result" where
  "setFlowHashIndirect K e intf c =
     (case ioctl K e intf
             (RxfhIndir \<lparr>ethtoolRxfhIndir.cmd = ETHTOOL_GRXFHINDIR, size' = 0\<rparr> []) of
        (e1, Some err, b) \<Rightarrow>
          (e1, Err (Errorf ''get RX flow hash indirection table size, '' err))
      | (e1, None, b) \<Rightarrow>
          let indirHead = fst (as_RxfhIndir b);
              sz = sizeofEthtoolRxfhIndir + IndirectTableSize (size' indirHead);
              mem = calloc sizeofEthtoolRxfhIndir sz;
              indir = \<lparr>ethtoolRxfhIndir.cmd = ETHTOOL_SRXFHINDIR, size' = size' indirHead\<rparr>
          in case UnsafeRawIndirectTable mem (unat (size' indirHead)) of
               Inl p \<Rightarrow> (e1, Panic p)
             | Inr table \<Rightarrow>
                 (case Fill_raw (Action c) table of
                    Inl p \<Rightarrow> (e1, Panic p)
                  | Inr (mem', n, Some err) \<Rightarrow>
                      (e1, Err (Errorf ''fill RX flow hash indirection table, '' err))
                  | Inr (mem', n, None) \<Rightarrow>
                      (case ioctl K e1 intf (RxfhIndir (indir\<lparr>size' := word_of_int n\<rparr>) mem') of
                         (e2, Some err, b2) \<Rightarrow>
                           (e2, Err (Errorf ''set RX flow hash indirection table, '' err))
                       | (e2, None, b2) \<Rightarrow> (e2, Ok ()))))"

text \<open>
  \<^verbatim>\<open>SetFlowHash\<close> after the \<^verbatim>\<open>ETHTOOL_GRSSH\<close> probe has succeeded, in three steps: the size of
  the table region, the hash function bit, and the request itself.
\<close>

definition SetFlowHash_indirBytes :: "SetConfig \<Rightarrow> ethtoolRxfh \<Rightarrow> panic + nat" where
  "SetFlowHash_indirBytes c rssHead =
     (case assert_Equal (Action c) of
        Inl p \<Rightarrow> Inl p
      | Inr pe \<Rightarrow>
          if pe \<noteq> None then Inr (IndirectTableSize (indir_size rssHead))
          else
            (case assert_Weight (Action c) of
               Inl p \<Rightarrow> Inl p
             | Inr pw \<Rightarrow>
                 if pw \<noteq> None then Inr (IndirectTableSize (indir_size rssHead))
                 else Inr 0))"

definition SetFlowHash_hfunc ::
  "'s kernel \<Rightarrow> 's world \<Rightarrow> string \<Rightarrow> SetConfig \<Rightarrow> ethtoolRxfh \<Rightarrow> 's world \<times> u8 result" where
  "SetFlowHash_hfunc K e intf c rssHead =
     (if hfunc rssHead \<noteq> 0 \<and> length (Func c) > 0 then
        (case getStringSet K e intf ETH_SS_RSS_HASH_FUNCS 0 of
           (e1, Panic p) \<Rightarrow> (e1, Panic p)
         | (e1, Err err) \<Rightarrow> (e1, Err (Errorf ''get hash functions names, '' err))
         | (e1, Ok funcs) \<Rightarrow>
             let h = (case funcs of
                        None \<Rightarrow> 0
                      | Some m \<Rightarrow> (case m (Func c) of None \<Rightarrow> 0 | Some v \<Rightarrow> push_bit v 1))
             in if h = 0
                then (e1, Err (ErrorsNew (''unknown hash function `'' @ Func c @ ''`'')))
                else (e1, Ok h))
      else (e, Ok 0))"

definition SetFlowHash_request ::
  "'s kernel \<Rightarrow> 's world \<Rightarrow> string \<Rightarrow> SetConfig \<Rightarrow> ethtoolRxfh \<Rightarrow> nat \<Rightarrow> u8 \<Rightarrow>
   's world \<times> RSSContext result" where
  "SetFlowHash_request K e intf c rssHead indirBytes h =
     (let sz = sizeofEthtoolRxfh + indirBytes + unat (key_size rssHead);
          mem = calloc sizeofEthtoolRxfh sz;
          rss = ethtoolRxfh_zero\<lparr>ethtoolRxfh.cmd := ETHTOOL_SRSSH,
                                 rss_context := SetConfig.Context c, hfunc := h\<rparr>
      in case assert_Delete (Action c) of
           Inl p \<Rightarrow> (e, Panic p)
         | Inr pd \<Rightarrow>
        (case (if pd = None then
                 (case UnsafeRawIndirectTable mem (unat (indir_size rssHead)) of
                    Inl p \<Rightarrow> Panic p
                  | Inr table \<Rightarrow>
                      (case Fill_raw (Action c) table of
                         Inl p \<Rightarrow> Panic p
                       | Inr (mem', n, Some err) \<Rightarrow>
                           Err (Errorf ''fill RX flow hash indirection table, '' err)
                       | Inr (mem', n, None) \<Rightarrow>
                           Ok (rss\<lparr>key_size := key_size rssHead,
                                   indir_size := word_of_int n\<rparr>, mem')))
               else Ok (rss, mem)) of
           Panic p \<Rightarrow> (e, Panic p)
         | Err err \<Rightarrow> (e, Err err)
         | Ok (rss', mem') \<Rightarrow>
        (case (if length (SetConfig.Key c) > 0 then memcpy mem' indirBytes (SetConfig.Key c)
               else Inr mem') of
           Inl p \<Rightarrow> (e, Panic p)
         | Inr mem'' \<Rightarrow>
        (case ioctl K e intf (Rxfh rss' mem'') of
           (e1, Some err, b) \<Rightarrow>
             (e1, Err (Errorf ''set RX flow hash configuration, '' err))
         | (e1, None, b) \<Rightarrow>
             (e1, Ok (if IsNew (SetConfig.Context c) then rss_context (fst (as_Rxfh b))
                      else 0))))))"

definition SetFlowHash ::
  "'s kernel \<Rightarrow> 's world \<Rightarrow> string \<Rightarrow> SetOption list \<Rightarrow> 's world \<times> RSSContext result" where
  "SetFlowHash K e intf opts =
     (let c = NewSetConfig opts in
      case ioctl K e intf (Rxnfc ethtoolRxnfc_GRXRINGS) of
        (e1, Some err, b) \<Rightarrow> (e1, Err (Errorf ''get RX ring count, '' err))
      | (e1, None, b) \<Rightarrow>
      case ioctl K e1 intf (GRSSH_probe 0) of
        (e2, Some err, b2) \<Rightarrow>
          if errors_Is err EOPNOTSUPP \<and> length (SetConfig.Key c) = 0 \<and> length (Func c) = 0
          then
            (case assert_Delete (Action c) of
               Inl p \<Rightarrow> (e2, Panic p)
             | Inr None \<Rightarrow>
                 (case setFlowHashIndirect K e2 intf c of
                    (e3, Panic p) \<Rightarrow> (e3, Panic p)
                  | (e3, Err err3) \<Rightarrow> (e3, Err err3)
                  | (e3, Ok u) \<Rightarrow> (e3, Ok 0))
             | Inr (Some d) \<Rightarrow>
                 (e2, Err (Errorf ''get RX flow hash indir size and key size, '' err)))
          else (e2, Err (Errorf ''get RX flow hash indir size and key size, '' err))
      | (e2, None, b2) \<Rightarrow>
      let rssHead = fst (as_Rxfh b2) in
      case SetFlowHash_indirBytes c rssHead of
        Inl p \<Rightarrow> (e2, Panic p)
      | Inr indirBytes \<Rightarrow>
      case SetFlowHash_hfunc K e2 intf c rssHead of
        (e3, Panic p) \<Rightarrow> (e3, Panic p)
      | (e3, Err err) \<Rightarrow> (e3, Err err)
      | (e3, Ok h) \<Rightarrow> SetFlowHash_request K e3 intf c rssHead indirBytes h)"

section \<open>Package ethtool: the monolithic \<^verbatim>\<open>GetFlowHash\<close>\<close>

text \<open>
  The second file of package ethtool in the repository declares \<^verbatim>\<open>IndirectTable\<close>,
  \<^verbatim>\<open>FlowHash\<close>, \<^verbatim>\<open>ioctl\<close> and \<^verbatim>\<open>goString\<close> with the same text as above and has its own
  \<^verbatim>\<open>getStringSet\<close>, \<^verbatim>\<open>getFlowHashIndirectTable\<close> and \<^verbatim>\<open>GetFlowHash\<close>, which carry the suffix
  \<open>_monolithic\<close> here. It slices \<^verbatim>\<open>(*[1 << 24]uint32)(p)[:n]\<close> in place, which is the body of
  \<^verbatim>\<open>UnsafeRawIndirectTable\<close>.
\<close>

record flowHashConfig =
  rss_context :: u32

type_synonym FlowHashOption = "flowHashConfig \<Rightarrow> flowHashConfig"

definition WithRSSContext_monolithic :: "u32 \<Rightarrow> FlowHashOption" where
  "WithRSSContext_monolithic context = (\<lambda>c. c\<lparr>flowHashConfig.rss_context := context\<rparr>)"

text \<open>This file tests \<^verbatim>\<open>err == syscall.EOPNOTSUPP\<close>.\<close>

definition getStringSet_monolithic ::
  "'s kernel \<Rightarrow> 's world \<Rightarrow> string \<Rightarrow> u32 \<Rightarrow> nat \<Rightarrow>
   's world \<times> (string \<rightharpoonup> nat) option result" where
  "getStringSet_monolithic = getStringSet_with (\<lambda>err target. err = Errno target)"

definition getFlowHashIndirectTable_monolithic ::
  "'s kernel \<Rightarrow> 's world \<Rightarrow> string \<Rightarrow> 's world \<times> IndirectTable result" where
  "getFlowHashIndirectTable_monolithic K e intf =
     (case ioctl K e intf
             (RxfhIndir \<lparr>ethtoolRxfhIndir.cmd = ETHTOOL_GRXFHINDIR, size' = 0\<rparr> []) of
        (e1, Some err, b) \<Rightarrow>
          (e1, Err (Errorf ''get RX flow hash indirection table size, '' err))
      | (e1, None, b) \<Rightarrow>
          let indirHead = fst (as_RxfhIndir b);
              sz = sizeofEthtoolRxfhIndir + unat (size' indirHead) * 4;
              mem = calloc sizeofEthtoolRxfhIndir sz;
              indir = \<lparr>ethtoolRxfhIndir.cmd = ETHTOOL_GRXFHINDIR, size' = size' indirHead\<rparr>
          in case ioctl K e1 intf (RxfhIndir indirHead []) of
               (e2, Some err, b2) \<Rightarrow>
                 (e2, Err (Errorf ''get RX flow hash indirection table, '' err))
             | (e2, None, b2) \<Rightarrow>
                 if size' indir = 0 then (e2, Err (Errno ENOTSUP))
                 else
                   (let n = unat (size' indir) in
                    if sizeofEthtoolRxfhIndir + n * 4 > sz then
                      (e2, Err (Errorf ''get RX flow indirect table, '' (Errno ERANGE)))
                    else
                      (case UnsafeRawIndirectTable mem n of
                         Inl p \<Rightarrow> (e2, Panic p)
                       | Inr raw \<Rightarrow>
                           (case copy_raw (replicate n 0) raw of
                              Inl p \<Rightarrow> (e2, Panic p)
                            | Inr table \<Rightarrow> (e2, Ok table)))))"

definition GetFlowHash_decode_monolithic ::
  "'s kernel \<Rightarrow> 's world \<Rightarrow> string \<Rightarrow> int \<Rightarrow> nat \<Rightarrow> ethtoolRxfh \<Rightarrow> u8 list \<Rightarrow>
   's world \<times> FlowHash result" where
  "GetFlowHash_decode_monolithic K e intf ringCount sz rss mem =
     (let n = unat (indir_size rss) in
      if sizeofEthtoolRxfh + n * 4 > sz then
        (e, Err (Errorf ''get RX flow indirect table, '' (Errno ERANGE)))
      else
        (case UnsafeRawIndirectTable mem n of
           Inl p \<Rightarrow> (e, Panic p)
         | Inr raw \<Rightarrow>
        (case copy_raw (replicate n 0) raw of
           Inl p \<Rightarrow> (e, Panic p)
         | Inr table \<Rightarrow>
        (case (if key_size rss > 0 then
                 (let off = sizeofEthtoolRxfh + unat (indir_size rss) * 4 in
                  if off + unat (key_size rss) > sz then Err (Errno ERANGE)
                  else (case GoBytes mem (off - sizeofEthtoolRxfh) (unat (key_size rss)) of
                          Inl p \<Rightarrow> Panic p
                        | Inr bs \<Rightarrow> Ok (Some bs)))
               else Ok None) of
           Panic p \<Rightarrow> (e, Panic p)
         | Err err \<Rightarrow> (e, Err err)
         | Ok key \<Rightarrow>
             if hfunc rss = 0 then (e, Err (Errno ENOTSUP))
             else
               (case getStringSet_monolithic K e intf ETH_SS_RSS_HASH_FUNCS 0 of
                  (e1, Panic p) \<Rightarrow> (e1, Panic p)
                | (e1, Err err) \<Rightarrow> (e1, Err (Errorf ''get hash functions names, '' err))
                | (e1, Ok hfuncs) \<Rightarrow>
                    (e1, Ok \<lparr>RingCount = ringCount, Key = key,
                             Funcs = Some (funcs_of (hfunc rss) hfuncs),
                             Table = table\<rparr>))))))"

definition GetFlowHash_monolithic ::
  "'s kernel \<Rightarrow> 's world \<Rightarrow> string \<Rightarrow> FlowHashOption list \<Rightarrow> 's world \<times> FlowHash result" where
  "GetFlowHash_monolithic K e intf opts =
     (let cfg = foldl (\<lambda>c opt. opt c) \<lparr>flowHashConfig.rss_context = 0\<rparr> opts in
      case ioctl K e intf (Rxnfc ethtoolRxnfc_GRXRINGS) of
        (e1, Some err, b) \<Rightarrow> (e1, Err (Errorf ''get RX ring count, '' err))
      | (e1, None, b) \<Rightarrow>
      let ringCount = as_Rxnfc b in
      case ioctl K e1 intf (GRSSH_probe (flowHashConfig.rss_context cfg)) of
        (e2, Some err, b2) \<Rightarrow>
          if err = Errno EOPNOTSUPP \<and> flowHashConfig.rss_context cfg \<noteq> 0 then
            (case getFlowHashIndirectTable_monolithic K e2 intf of
               (e3, Panic p) \<Rightarrow> (e3, Panic p)
             | (e3, Err err3) \<Rightarrow> (e3, Err err3)
             | (e3, Ok table) \<Rightarrow>
                 (e3, Ok \<lparr>RingCount = sint (ethtoolRxnfc.data ringCount), Key = None,
                          Funcs = None, Table = table\<rparr>))
          else (e2, Err (Errorf ''get RX flow hash indir size and/or key size, '' err))
      | (e2, None, b2) \<Rightarrow>
      let rssHead = fst (as_Rxfh b2);
          sz = sizeofEthtoolRxfh + unat (indir_size rssHead) * 4 + unat (key_size rssHead)
      in case ioctl K e2 intf (GRSSH_query (flowHashConfig.rss_context cfg) rssHead sz) of
           (e3, Some err, b3) \<Rightarrow> (e3, Err (Errorf ''get RX flow hash configuration, '' err))
         | (e3, None, b3) \<Rightarrow>
             GetFlowHash_decode_monolithic K e3 intf (sint (ethtoolRxnfc.data ringCount)) sz
               (fst (as_Rxfh b3)) (snd (as_Rxfh b3)))"

section \<open>Test devices\<close>

text \<open>
  A device that answers from a script: each call takes the next pair of errno and buffer
  content, and \<open>EINVAL\<close> leaves the buffer alone once the script is used up.
\<close>

definition scripted :: "(nat \<times> buffer) list kernel" where
  "scripted s ifr =
     (case s of
        [] \<Rightarrow> ([], 22, ifr_data ifr)
      | (ep, out) # rest \<Rightarrow> (rest, ep, out))"

text \<open>Every command structure begins with its 32-bit command code.\<close>

fun buffer_cmd :: "buffer \<Rightarrow> u32" where
  "buffer_cmd (Rxnfc a) = ethtoolRxnfc.cmd a"
| "buffer_cmd (Rxfh a m) = ethtoolRxfh.cmd a"
| "buffer_cmd (RxfhIndir a m) = ethtoolRxfhIndir.cmd a"
| "buffer_cmd (SsetInfo a) = ethtoolSsetInfo.cmd a"
| "buffer_cmd (GStrings a) = ethtoolGStrings.cmd a"
| "buffer_cmd (DrvInfo m) = le_u32 (take 4 m)"

definition issued :: "'s world \<Rightarrow> u32 list" where
  "issued e = map (\<lambda>ifr. buffer_cmd (ifr_data ifr)) (trace e)"

text \<open>The value of a call that returned without an error.\<close>

fun result_ok :: "'a result \<Rightarrow> 'a option" where
  "result_ok (Ok v) = Some v"
| "result_ok r = None"

text \<open>Answers of a scripted device, and the world in which nothing has been issued yet.\<close>

definition rings_answer :: "u64 \<Rightarrow> nat \<times> buffer" where
  "rings_answer n = (0, Rxnfc (ethtoolRxnfc_GRXRINGS\<lparr>ethtoolRxnfc.data := n\<rparr>))"

definition rxfh_answer :: "nat \<Rightarrow> u32 \<Rightarrow> u32 \<Rightarrow> u8 \<Rightarrow> u8 list \<Rightarrow> nat \<times> buffer" where
  "rxfh_answer ep isz ksz h m =
     (ep, Rxfh (ethtoolRxfh_zero\<lparr>ethtoolRxfh.cmd := ETHTOOL_GRSSH, indir_size := isz,
                                 key_size := ksz, hfunc := h\<rparr>) m)"

definition indir_answer :: "nat \<Rightarrow> u32 \<Rightarrow> u8 list \<Rightarrow> nat \<times> buffer" where
  "indir_answer ep n m =
     (ep, RxfhIndir \<lparr>ethtoolRxfhIndir.cmd = ETHTOOL_GRXFHINDIR, size' = n\<rparr> m)"

definition sset_answer :: "u64 \<Rightarrow> nat \<times> buffer" where
  "sset_answer n =
     (0, SsetInfo \<lparr>ethtoolSsetInfo.cmd = ETHTOOL_GSSET_INFO, reserved = 0,
                   sset_mask = push_bit (unat ETH_SS_RSS_HASH_FUNCS) 1, data = n\<rparr>)"

definition strings_answer :: "u32 \<Rightarrow> string \<Rightarrow> nat \<times> buffer" where
  "strings_answer n d =
     (0, GStrings \<lparr>ethtoolGStrings.cmd = ETHTOOL_GSTRINGS,
                   string_set = ETH_SS_RSS_HASH_FUNCS, len = n, data = d\<rparr>)"

definition fresh :: "'s \<Rightarrow> 's world" where
  "fresh s = \<lparr>state = s, trace = []\<rparr>"

section \<open>Properties\<close>

declare Equal_Fill_loop.simps [simp del]
declare Weight_Fill_inner.simps [simp del]
declare Weight_Fill_loop.simps [simp del]

subsection \<open>Arithmetic of the Go model\<close>

lemma wrap64_signed_take_bit: "wrap64 x = signed_take_bit 63 x"
  by (simp add: wrap64_def signed_take_bit_eq_take_bit_shift take_bit_eq_mod)

lemma word_of_int_wrap64: "(word_of_int (wrap64 x) :: u32) = word_of_int x"
  by (simp add: wrap64_signed_take_bit word_of_int_eq_iff take_bit_signed_take_bit)

lemma go_rem_pos: "0 < n \<Longrightarrow> go_rem (int i) n = Inr (int i mod n)"
  by (simp add: go_rem_def signed_modulo_int_def sgn_if)

subsection \<open>\<^verbatim>\<open>Equal.Fill\<close>\<close>

lemma Equal_Fill_loop_pos:
  "0 < N e \<Longrightarrow>
   \<exists>t. Equal_Fill_loop e i table = Inr t \<and> length t = length table \<and>
       (\<forall>k<length table. t ! k =
          (if k < i then table ! k else word_of_int (Equal.Start e + int k mod N e)))"
proof (induction e i table rule: Equal_Fill_loop.induct)
  case (1 e i table)
  show ?case
  proof (cases "i < length table")
    case False
    then show ?thesis by (simp add: Equal_Fill_loop.simps[of e i table])
  next
    case True
    let ?t' = "table[i := word_of_int (wrap64 (Equal.Start e + int i mod N e))]"
    from 1(2) have r: "go_rem (int i) (N e) = Inr (int i mod N e)" by (rule go_rem_pos)
    from "1.IH"[OF True r 1(2)] obtain t where
      t: "Equal_Fill_loop e (Suc i) ?t' = Inr t" "length t = length ?t'"
         "\<forall>k<length ?t'. t ! k =
            (if k < Suc i then ?t' ! k else word_of_int (Equal.Start e + int k mod N e))"
      by blast
    have "Equal_Fill_loop e i table = Inr t"
      using True r t(1) by (simp add: Equal_Fill_loop.simps[of e i table])
    moreover have "length t = length table" using t(2) by simp
    moreover have "\<forall>k<length table. t ! k =
          (if k < i then table ! k else word_of_int (Equal.Start e + int k mod N e))"
    proof (intro allI impI)
      fix k assume k: "k < length table"
      show "t ! k = (if k < i then table ! k else word_of_int (Equal.Start e + int k mod N e))"
        using t(3) k True by (cases "k = i") (auto simp: word_of_int_wrap64 nth_list_update)
    qed
    ultimately show ?thesis by blast
  qed
qed

text \<open>
  Claim C2, amended. For every table (of any length \<open>L\<close>, the empty one included), every
  start \<open>S\<close> and every divisor \<open>N > 0\<close>, \<^verbatim>\<open>Equal.Fill\<close> returns normally with applied count \<open>L\<close>
  and no error, and entry \<open>i\<close> of the table is \<^verbatim>\<open>uint32(S + (i mod N))\<close>, the sum reduced
  modulo \<open>2^32\<close>, for every \<open>i < L\<close>; the entry is the number \<open>S + (i mod N)\<close> itself when
  \<open>0 \<le> S\<close> and \<open>S + N \<le> 2^32\<close>.
\<close>

theorem Equal_Fill_formula:
  assumes "0 < N e"
  shows "\<exists>t. Equal_Fill e table = Inr (t, int (length table), None) \<and>
             length t = length table \<and>
             (\<forall>i<length table.
                t ! i = word_of_int (Equal.Start e + int i mod N e) \<and>
                (0 \<le> Equal.Start e \<and> Equal.Start e + N e \<le> 2 ^ 32 \<longrightarrow>
                 uint (t ! i) = Equal.Start e + int i mod N e))"
proof -
  from Equal_Fill_loop_pos[OF assms, of 0 table] obtain t where
    t: "Equal_Fill_loop e 0 table = Inr t" "length t = length table"
    "\<forall>k<length table. t ! k = word_of_int (Equal.Start e + int k mod N e)"
    by auto
  have "uint (t ! i) = Equal.Start e + int i mod N e"
    if i: "i < length table" and S: "0 \<le> Equal.Start e" "Equal.Start e + N e \<le> 2 ^ 32" for i
  proof -
    have m: "0 \<le> int i mod N e" "int i mod N e < N e" using assms by simp_all
    have lo: "0 \<le> Equal.Start e + int i mod N e" using S(1) m(1) by simp
    have hi: "Equal.Start e + int i mod N e < 2 ^ 32" using S(2) m(2) by simp
    have "t ! i = word_of_int (Equal.Start e + int i mod N e)"
      using t(3) i by blast
    then have "uint (t ! i) = take_bit 32 (Equal.Start e + int i mod N e)"
      by (simp only: uint_word_of_int_eq) simp
    also have "\<dots> = Equal.Start e + int i mod N e"
      using lo hi by (simp add: take_bit_int_eq_self)
    finally show ?thesis .
  qed
  with t show ?thesis by (simp add: Equal_Fill_def)
qed

theorem Equal_Fill_formula_witness:
  "0 < N \<lparr>Equal.Start = 0, N = 3\<rparr> \<and>
   Equal_Fill \<lparr>Equal.Start = 0, N = 3\<rparr> [0, 0, 0, 0, 0, 0, 0, 0] =
     Inr ([0, 1, 2, 0, 1, 2, 0, 1], 8, None)"
proof -
  have pos: "0 < N \<lparr>Equal.Start = 0, N = 3\<rparr>" by simp
  from Equal_Fill_formula[OF pos, of "[0, 0, 0, 0, 0, 0, 0, 0]"] obtain t where
    t: "Equal_Fill \<lparr>Equal.Start = 0, N = 3\<rparr> [0, 0, 0, 0, 0, 0, 0, 0] = Inr (t, 8, None)"
       "length t = 8" "\<forall>i<8. t ! i = word_of_int (0 + int i mod 3)"
    by auto
  have "t = [0, 1, 2, 0, 1, 2, 0, 1]"
  proof (rule nth_equalityI)
    show "length t = length [0, 1, 2, 0, 1, 2, 0, 1 :: u32]" using t(2) by simp
  next
    fix i assume "i < length t"
    then have "i \<in> {0, 1, 2, 3, 4, 5, 6, 7}" using t(2) by auto
    then show "t ! i = [0, 1, 2, 0, 1, 2, 0, 1] ! i" using t(3) by auto
  qed
  with t(1) pos show ?thesis by simp
qed

text \<open>
  Claim C2 as stated gives the entry as the number \<open>S + (i mod N)\<close> for every start \<open>S\<close>.
  \<^verbatim>\<open>Start\<close> is a Go \<^verbatim>\<open>int\<close> and the entries are \<^verbatim>\<open>uint32\<close>: with \<open>S = -1\<close> and \<open>N = 1\<close> the formula
  gives \<open>-1\<close> at index 0, and the one-entry table holds \<open>4294967295\<close>.
\<close>

theorem Equal_Fill_negative_start_counterexample:
  "Equal_Fill \<lparr>Equal.Start = - 1, N = 1\<rparr> [0] = Inr ([4294967295], 1, None) \<and>
   uint (4294967295 :: u32) = 4294967295 \<and>
   Equal.Start \<lparr>Equal.Start = - 1, N = 1\<rparr> + int 0 mod N \<lparr>Equal.Start = - 1, N = 1\<rparr> = - 1"
  by (simp add: Equal_Fill_def Equal_Fill_loop.simps[of _ 0] Equal_Fill_loop.simps[of _ "Suc 0"]
      go_rem_def wrap64_def)

text \<open>
  Claim C3 says that \<^verbatim>\<open>Equal{N: 0}.Fill\<close> on a non-empty table returns a policy error and
  never panics. The code evaluates \<^verbatim>\<open>i % e.N\<close> with no guard: on the one-entry table the
  call ends in the integer-divide-by-zero panic.
\<close>

theorem Equal_Fill_zero_divisor_panics:
  "Equal_Fill \<lparr>Equal.Start = 0, N = 0\<rparr> [0] = Inl DivideByZero"
  by (simp add: Equal_Fill_def Equal_Fill_loop.simps[of _ 0] go_rem_def)

lemma Equal_Fill_zero_divisor_general:
  "table \<noteq> [] \<Longrightarrow> N e = 0 \<Longrightarrow> Equal_Fill e table = Inl DivideByZero"
  by (simp add: Equal_Fill_def Equal_Fill_loop.simps[of _ 0] go_rem_def)

subsection \<open>Options of \<^verbatim>\<open>SetConfig\<close>\<close>

text \<open>
  Claim C9. \<^verbatim>\<open>NewContext\<close> ignores its argument: applied to any \<^verbatim>\<open>SetConfig\<close> it sets
  \<^verbatim>\<open>Context\<close> to the allocate sentinel \<^verbatim>\<open>0xFFFFFFFF\<close> and changes nothing else, so two
  calls with different arguments build the same option and the same configuration.
\<close>

theorem NewContext_ignores_argument:
  "NewContext c cfg = cfg\<lparr>SetConfig.Context := 0xFFFFFFFF\<rparr> \<and>
   IsNew (SetConfig.Context (NewContext c cfg)) \<and>
   NewContext c1 = NewContext c2 \<and>
   NewSetConfig (opts @ [NewContext c1]) = NewSetConfig (opts @ [NewContext c2])"
  by (simp add: NewContext_def NewSetConfig_def IsNew_def ETH_RXFH_CONTEXT_ALLOC_def)

subsection \<open>\<^verbatim>\<open>Weight.Fill\<close>\<close>

lemma wrap64_id: "- (2 ^ 63) \<le> x \<Longrightarrow> x < 2 ^ 63 \<Longrightarrow> wrap64 x = x"
  by (simp add: wrap64_def)

lemma wrap64_wrap64_add: "wrap64 (wrap64 a + b) = wrap64 (a + b)"
  by (simp add: wrap64_def algebra_simps mod_simps)

lemma Weight_sum_wrap64: "Weight_sum w = wrap64 (sum_list (Weights w))"
proof -
  have "foldl (\<lambda>s n. wrap64 (s + n)) a xs = wrap64 (a + sum_list xs)" if "wrap64 a = a" for a xs
    using that
  proof (induction xs arbitrary: a)
    case Nil then show ?case by simp
  next
    case (Cons x xs)
    have "wrap64 (wrap64 (a + x)) = wrap64 (a + x)"
      by (simp add: wrap64_def)
    from Cons.IH[OF this] show ?case
      by (simp add: wrap64_wrap64_add add.assoc)
  qed
  from this[of 0 "Weights w"] show ?thesis
    by (simp add: Weight_sum_def wrap64_def)
qed

lemma sdiv_pos: "0 < s \<Longrightarrow> 0 \<le> a \<Longrightarrow> a sdiv s = a div (s::int)"
  by (simp add: signed_divide_int_def sgn_if)

lemma sdiv_neg: "0 < s \<Longrightarrow> a < 0 \<Longrightarrow> a sdiv s = - ((- a) div (s::int))"
  by (simp add: signed_divide_int_def sgn_if)

lemma sdiv_bounds:
  assumes "0 < (s::int)" "- (2 ^ 63) \<le> a" "a < 2 ^ 63"
  shows "- (2 ^ 63) \<le> a sdiv s \<and> a sdiv s < 2 ^ 63"
proof (cases "0 \<le> a")
  case True
  then have "a sdiv s = a div s" using assms(1) by (simp add: sdiv_pos)
  moreover have "0 \<le> a div s" using True assms(1) by (simp add: pos_imp_zdiv_nonneg_iff)
  moreover have "a div s \<le> a"
  proof (cases "a = 0")
    case True then show ?thesis by simp
  next
    case False with \<open>0 \<le> a\<close> show ?thesis by (simp add: int_div_le_self)
  qed
  ultimately show ?thesis using assms by linarith
next
  case False
  then have e: "a sdiv s = - ((- a) div s)" using assms(1) by (simp add: sdiv_neg)
  have "0 \<le> (- a) div s" using False assms(1) by (simp add: pos_imp_zdiv_nonneg_iff)
  moreover have "(- a) div s \<le> - a" using False by (simp add: int_div_le_self)
  ultimately show ?thesis using assms e by linarith
qed

lemma less_sdiv_iff:
  assumes "0 < (s::int)" "0 \<le> i"
  shows "i < a sdiv s \<longleftrightarrow> i < a div s"
proof (cases "0 \<le> a")
  case True then show ?thesis using assms by (simp add: sdiv_pos)
next
  case False
  then have "a sdiv s \<le> 0" using assms(1) by (simp add: sdiv_neg pos_imp_zdiv_nonneg_iff)
  moreover have "a div s < 0" using False assms(1) by (simp add: pos_imp_zdiv_neg_iff)
  ultimately show ?thesis using assms(2) by linarith
qed

lemma cum_Suc: "k < length ws \<Longrightarrow> sum_list (take (Suc k) ws) = sum_list (take k ws) + (ws ! k :: int)"
  by (simp add: take_Suc_conv_app_nth)

lemma go_div_in_range:
  assumes "0 < s" "- (2 ^ 63) \<le> a" "a < 2 ^ 63"
  shows "go_div (wrap64 a) s = Inr (a sdiv s)"
  using assms sdiv_bounds[OF assms] by (simp add: go_div_def wrap64_id)

lemma Weight_Fill_inner_run:
  fixes w :: Weight and L i :: int
  defines "ws \<equiv> Weights w"
  defines "S \<equiv> sum_list ws"
  defines "thr \<equiv> \<lambda>k. (L * sum_list (take k ws)) sdiv S"
  assumes S: "0 < S" and L: "0 < L" and i: "0 \<le> i" "i < L"
    and H: "\<forall>k\<le>length ws. - (2 ^ 63) \<le> L * sum_list (take k ws) \<and> L * sum_list (take k ws) < 2 ^ 63"
    and k: "k \<le> length ws"
  shows "\<exists>k2. k \<le> k2 \<and> k2 \<le> length ws \<and>
           Weight_Fill_inner w L S i (int k - 1) (sum_list (take k ws)) =
             Inr (int k2 - 1, sum_list (take k2 ws)) \<and>
           i < thr k2 \<and> (\<forall>k'. k \<le> k' \<and> k' < k2 \<longrightarrow> thr k' \<le> i)"
  using k
proof (induction "length ws - k" arbitrary: k)
  case 0
  then have kn: "k = length ws" by simp
  have "thr k = L" using S by (simp add: thr_def kn S_def[symmetric] sdiv_pos L less_imp_le)
  moreover have "go_div (wrap64 (L * sum_list (take k ws))) S = Inr (thr k)"
    unfolding thr_def using H[rule_format, of k] kn by (intro go_div_in_range S) simp_all
  ultimately have "Weight_Fill_inner w L S i (int k - 1) (sum_list (take k ws)) =
      Inr (int k - 1, sum_list (take k ws))"
    using i by (simp add: Weight_Fill_inner.simps[of w L S i "int k - 1"])
  then show ?case using \<open>thr k = L\<close> i kn by auto
next
  case (Suc d)
  then have kl: "k < length ws" by simp
  have gd: "go_div (wrap64 (L * sum_list (take k ws))) S = Inr (thr k)"
    unfolding thr_def using H[rule_format, of k] kl by (intro go_div_in_range S) simp_all
  show ?case
  proof (cases "thr k \<le> i")
    case False
    then have "Weight_Fill_inner w L S i (int k - 1) (sum_list (take k ws)) =
      Inr (int k - 1, sum_list (take k ws))"
      using gd by (simp add: Weight_Fill_inner.simps[of w L S i "int k - 1"])
    then show ?thesis using False Suc.prems by auto
  next
    case True
    have d: "d = length ws - Suc k" using Suc(2) by simp
    have sk: "Suc k \<le> length ws" using kl by simp
    from Suc(1)[OF d sk] obtain k2 where k2: "Suc k \<le> k2" "k2 \<le> length ws"
      "Weight_Fill_inner w L S i (int (Suc k) - 1) (sum_list (take (Suc k) ws)) =
         Inr (int k2 - 1, sum_list (take k2 ws))"
      "i < thr k2" "\<forall>k'. Suc k \<le> k' \<and> k' < k2 \<longrightarrow> thr k' \<le> i"
      by blast
    have cumr: "- (2 ^ 63) \<le> sum_list (take (Suc k) ws) \<and> sum_list (take (Suc k) ws) < 2 ^ 63"
    proof -
      from H sk have b: "- (2 ^ 63) \<le> L * sum_list (take (Suc k) ws)"
        "L * sum_list (take (Suc k) ws) < 2 ^ 63" by blast+
      show ?thesis
      proof (cases "0 \<le> sum_list (take (Suc k) ws)")
        case True
        then have "sum_list (take (Suc k) ws) \<le> L * sum_list (take (Suc k) ws)"
          using L by (simp add: mult_le_cancel_right1)
        then show ?thesis using b True by linarith
      next
        case False
        then have "L * sum_list (take (Suc k) ws) \<le> sum_list (take (Suc k) ws)"
          using L by (simp add: mult_le_cancel_right2)
        then show ?thesis using b False by linarith
      qed
    qed
    have step: "wrap64 (sum_list (take k ws) + ws ! k) = sum_list (take (Suc k) ws)"
      using cumr kl by (simp add: cum_Suc wrap64_id)
    have "Weight_Fill_inner w L S i (int k - 1) (sum_list (take k ws)) =
        Weight_Fill_inner w L S i (int k) (sum_list (take (Suc k) ws))"
      using gd True kl step
      by (simp add: Weight_Fill_inner.simps[of w L S i "int k - 1"] ws_def[symmetric])
    with k2(3) have "Weight_Fill_inner w L S i (int k - 1) (sum_list (take k ws)) =
         Inr (int k2 - 1, sum_list (take k2 ws))" by simp
    moreover have "\<forall>k'. k \<le> k' \<and> k' < k2 \<longrightarrow> thr k' \<le> i"
      using k2(5) True by (metis Suc_leI le_neq_implies_less)
    ultimately show ?thesis using k2(1,2,4) by (meson Suc_leD)
  qed
qed

lemma Weight_Fill_loop_run:
  fixes w :: Weight
  defines "ws \<equiv> Weights w"
  defines "S \<equiv> sum_list ws"
  assumes S: "0 < S"
    and H: "\<forall>k\<le>length ws. - (2 ^ 63) \<le> int (length table) * sum_list (take k ws) \<and>
              int (length table) * sum_list (take k ws) < 2 ^ 63"
    and k: "k \<le> length ws"
    and inv: "\<forall>k'<k. (int (length table) * sum_list (take k' ws)) sdiv S \<le> int i"
  shows "\<exists>t. Weight_Fill_loop w S i (int k - 1) (sum_list (take k ws)) table = Inr t \<and>
           length t = length table \<and>
           (\<forall>m<length table.
              if m < i then t ! m = table ! m
              else (\<exists>k2. 1 \<le> k2 \<and> k2 \<le> length ws \<and>
                     t ! m = word_of_int (Weight.Start w + int k2 - 1) \<and>
                     int m < (int (length table) * sum_list (take k2 ws)) sdiv S \<and>
                     (\<forall>k'<k2. (int (length table) * sum_list (take k' ws)) sdiv S \<le> int m)))"
  using H k inv
proof (induction "length table - i" arbitrary: i k table)
  case 0
  then have "Weight_Fill_loop w S i (int k - 1) (sum_list (take k ws)) table = Inr table"
    by (simp add: Weight_Fill_loop.simps[of w S i])
  moreover have "\<forall>m<length table. m < i" using 0 by simp
  ultimately show ?case by simp
next
  case (Suc d)
  let ?L = "int (length table)"
  let ?thr = "\<lambda>k. (?L * sum_list (take k ws)) sdiv S"
  from Suc(2) have il: "i < length table" by simp
  then have L: "0 < ?L" by auto
  have H': "\<forall>k\<le>length (Weights w). - (2 ^ 63) \<le> ?L * sum_list (take k (Weights w)) \<and>
              ?L * sum_list (take k (Weights w)) < 2 ^ 63"
    using Suc.prems(1) by (simp add: ws_def)
  from Weight_Fill_inner_run[of w ?L "int i" k, OF _ L _ _ H'] S il Suc.prems(2)
  obtain k2 where k2: "k \<le> k2" "k2 \<le> length ws"
    "Weight_Fill_inner w ?L S (int i) (int k - 1) (sum_list (take k ws)) =
       Inr (int k2 - 1, sum_list (take k2 ws))"
    "int i < ?thr k2" "\<forall>k'. k \<le> k' \<and> k' < k2 \<longrightarrow> ?thr k' \<le> int i"
    unfolding ws_def S_def by auto
  have all: "\<forall>k'<k2. ?thr k' \<le> int i"
    using k2(5) Suc.prems(3) by (metis linorder_not_le)
  have k2pos: "1 \<le> k2"
  proof (rule ccontr)
    assume "\<not> 1 \<le> k2"
    then have "k2 = 0" by simp
    with k2(4) show False by simp
  qed
  let ?t' = "table[i := word_of_int (wrap64 (Weight.Start w + (int k2 - 1)))]"
  have len': "length ?t' = length table" by simp
  have d: "d = length ?t' - Suc i" using Suc(2) by simp
  have H2: "\<forall>k\<le>length ws. - (2 ^ 63) \<le> int (length ?t') * sum_list (take k ws) \<and>
              int (length ?t') * sum_list (take k ws) < 2 ^ 63"
    using Suc.prems(1) by simp
  have inv2: "\<forall>k'<k2. (int (length ?t') * sum_list (take k' ws)) sdiv S \<le> int (Suc i)"
    using all by fastforce
  from Suc(1)[OF d H2 k2(2) inv2] obtain t where t:
    "Weight_Fill_loop w S (Suc i) (int k2 - 1) (sum_list (take k2 ws)) ?t' = Inr t"
    "length t = length ?t'"
    "\<forall>m<length ?t'.
        if m < Suc i then t ! m = ?t' ! m
        else (\<exists>k3. 1 \<le> k3 \<and> k3 \<le> length ws \<and>
               t ! m = word_of_int (Weight.Start w + int k3 - 1) \<and>
               int m < (int (length ?t') * sum_list (take k3 ws)) sdiv S \<and>
               (\<forall>k'<k3. (int (length ?t') * sum_list (take k' ws)) sdiv S \<le> int m))"
    by blast
  have run: "Weight_Fill_loop w S i (int k - 1) (sum_list (take k ws)) table = Inr t"
    using il k2(3) t(1) by (simp add: Weight_Fill_loop.simps[of w S i])
  have "\<forall>m<length table.
              if m < i then t ! m = table ! m
              else (\<exists>k2. 1 \<le> k2 \<and> k2 \<le> length ws \<and>
                     t ! m = word_of_int (Weight.Start w + int k2 - 1) \<and>
                     int m < ?thr k2 \<and> (\<forall>k'<k2. ?thr k' \<le> int m))"
  proof (intro allI impI)
    fix m assume m: "m < length table"
    consider "m < i" | "m = i" | "i < m" by linarith
    then show "if m < i then t ! m = table ! m
              else (\<exists>k2. 1 \<le> k2 \<and> k2 \<le> length ws \<and>
                     t ! m = word_of_int (Weight.Start w + int k2 - 1) \<and>
                     int m < ?thr k2 \<and> (\<forall>k'<k2. ?thr k' \<le> int m))"
    proof cases
      case 1
      then show ?thesis using t(3) m by simp
    next
      case 2
      have "t ! i = ?t' ! i" using t(3) il by simp
      then have "t ! i = word_of_int (Weight.Start w + int k2 - 1)"
        using il by (simp add: word_of_int_wrap64 algebra_simps)
      then show ?thesis using 2 k2pos k2(2,4) all by auto
    next
      case 3
      then have c: "\<not> m < Suc i" "\<not> m < i" by auto
      have "m < length ?t'" using m by simp
      from t(3)[rule_format, OF this] c(1) show ?thesis
        unfolding len' by (simp only: c if_False)
    qed
  qed
  with run t(2) show ?case by simp
qed

text \<open>
  Claim C1, amended. For every non-empty table of length \<open>L\<close>, every start \<open>S\<close> and every
  list of weights whose sum satisfies \<open>0 < sum \<le> L\<close>, provided \<open>L\<close> times every running total
  of the weights fits Go's 64-bit \<^verbatim>\<open>int\<close>, \<^verbatim>\<open>Weight.Fill\<close> returns \<open>(L, nil)\<close> and entry \<open>i\<close> of
  the table is \<open>S + j\<close> (as \<^verbatim>\<open>uint32\<close>), where \<open>j\<close> is the least run index with
  \<open>i < floor (L * (w[0] + ... + w[j]) / sum)\<close>.
\<close>

theorem Weight_Fill_boundaries:
  assumes ne: "table \<noteq> []"
    and pos: "0 < sum_list (Weights w)"
    and cap: "sum_list (Weights w) \<le> int (length table)"
    and H: "\<forall>k\<le>length (Weights w).
              - (2 ^ 63) \<le> int (length table) * sum_list (take k (Weights w)) \<and>
              int (length table) * sum_list (take k (Weights w)) < 2 ^ 63"
  shows "\<exists>t. Weight_Fill w table = Inr (t, int (length table), None) \<and>
           length t = length table \<and>
           (\<forall>i<length table. \<exists>j<length (Weights w).
              t ! i = word_of_int (Weight.Start w + int j) \<and>
              int i < (int (length table) * sum_list (take (Suc j) (Weights w)))
                        div sum_list (Weights w) \<and>
              (\<forall>j'<j. \<not> int i < (int (length table) * sum_list (take (Suc j') (Weights w)))
                                   div sum_list (Weights w)))"
proof -
  let ?ws = "Weights w"
  let ?S = "sum_list ?ws"
  let ?L = "int (length table)"
  have L: "0 < ?L" using ne by auto
  from H[rule_format, of "length ?ws"] have LS: "?L * ?S < 2 ^ 63" by simp
  have "1 \<le> ?L" using L by linarith
  then have "1 * ?S \<le> ?L * ?S" using pos by (intro mult_right_mono) simp_all
  with LS have hi: "?S < 2 ^ 63" by linarith
  have lo: "- (2 ^ 63) \<le> ?S" using pos by simp
  have sum: "Weight_sum w = ?S"
    unfolding Weight_sum_wrap64 using lo hi by (rule wrap64_id)
  have inv: "\<forall>k'<(0::nat). (?L * sum_list (take k' ?ws)) sdiv ?S \<le> int 0" by simp
  from Weight_Fill_loop_run[of w table 0 0, OF pos H _ inv] obtain t where t:
    "Weight_Fill_loop w ?S 0 (- 1) 0 table = Inr t" "length t = length table"
    "\<forall>m<length table. \<exists>k2. 1 \<le> k2 \<and> k2 \<le> length ?ws \<and>
        t ! m = word_of_int (Weight.Start w + int k2 - 1) \<and>
        int m < (?L * sum_list (take k2 ?ws)) sdiv ?S \<and>
        (\<forall>k'<k2. (?L * sum_list (take k' ?ws)) sdiv ?S \<le> int m)"
    by auto
  have run: "Weight_Fill w table = Inr (t, ?L, None)"
    using sum pos cap t(1,2) by (simp add: Weight_Fill_def)
  have "\<forall>i<length table. \<exists>j<length ?ws.
          t ! i = word_of_int (Weight.Start w + int j) \<and>
          int i < (?L * sum_list (take (Suc j) ?ws)) div ?S \<and>
          (\<forall>j'<j. \<not> int i < (?L * sum_list (take (Suc j') ?ws)) div ?S)"
  proof (intro allI impI)
    fix i assume "i < length table"
    with t(3) obtain k2 where k2: "1 \<le> k2" "k2 \<le> length ?ws"
      "t ! i = word_of_int (Weight.Start w + int k2 - 1)"
      "int i < (?L * sum_list (take k2 ?ws)) sdiv ?S"
      "\<forall>k'<k2. (?L * sum_list (take k' ?ws)) sdiv ?S \<le> int i"
      by blast
    obtain j where j: "k2 = Suc j" using k2(1) by (cases k2) auto
    have a: "j < length ?ws" using k2(2) j by simp
    have b: "t ! i = word_of_int (Weight.Start w + int j)"
      using k2(3) j by (simp add: algebra_simps)
    have c: "int i < (?L * sum_list (take (Suc j) ?ws)) div ?S"
      using k2(4) j less_sdiv_iff[OF pos, of "int i"] by simp
    have d: "\<forall>j'<j. \<not> int i < (?L * sum_list (take (Suc j') ?ws)) div ?S"
    proof (intro allI impI)
      fix j' assume "j' < j"
      then have "Suc j' < k2" using j by simp
      with k2(5) have "(?L * sum_list (take (Suc j') ?ws)) sdiv ?S \<le> int i" by blast
      then have "\<not> int i < (?L * sum_list (take (Suc j') ?ws)) sdiv ?S" by simp
      then show "\<not> int i < (?L * sum_list (take (Suc j') ?ws)) div ?S"
        using less_sdiv_iff[OF pos, of "int i"] by simp
    qed
    from a b c d show "\<exists>j<length ?ws.
          t ! i = word_of_int (Weight.Start w + int j) \<and>
          int i < (?L * sum_list (take (Suc j) ?ws)) div ?S \<and>
          (\<forall>j'<j. \<not> int i < (?L * sum_list (take (Suc j') ?ws)) div ?S)"
      by blast
  qed
  with run t(2) show ?thesis by blast
qed


theorem Weight_Fill_boundaries_witness:
  "[0, 0, 0, 0, 0, 0, 0, 0, 0, 0] \<noteq> ([] :: u32 list) \<and>
   0 < sum_list (Weights \<lparr>Weight.Start = 0, Weights = [3, 7]\<rparr>) \<and>
   sum_list (Weights \<lparr>Weight.Start = 0, Weights = [3, 7]\<rparr>) \<le> 10 \<and>
   (\<exists>t. Weight_Fill \<lparr>Weight.Start = 0, Weights = [3, 7]\<rparr> [0, 0, 0, 0, 0, 0, 0, 0, 0, 0] =
          Inr (t, 10, None) \<and> length t = 10) \<and>
   Weight_Fill \<lparr>Weight.Start = 0, Weights = [3, 7]\<rparr> [0, 0, 0, 0, 0, 0, 0, 0, 0, 0] =
     Inr ([0, 0, 0, 1, 1, 1, 1, 1, 1, 1], 10, None)"
proof -
  let ?w = "\<lparr>Weight.Start = 0, Weights = [3, 7]\<rparr>"
  let ?table = "[0, 0, 0, 0, 0, 0, 0, 0, 0, 0] :: u32 list"
  have ne: "?table \<noteq> []" by simp
  have pos: "0 < sum_list (Weights ?w)" by simp
  have cap: "sum_list (Weights ?w) \<le> int (length ?table)" by simp
  have H: "\<forall>k\<le>length (Weights ?w).
             - (2 ^ 63) \<le> int (length ?table) * sum_list (take k (Weights ?w)) \<and>
             int (length ?table) * sum_list (take k (Weights ?w)) < 2 ^ 63"
  proof (intro allI impI)
    fix k assume "k \<le> length (Weights ?w)"
    then have "k = 0 \<or> k = 1 \<or> k = 2" by auto
    then show "- (2 ^ 63) \<le> int (length ?table) * sum_list (take k (Weights ?w)) \<and>
             int (length ?table) * sum_list (take k (Weights ?w)) < 2 ^ 63"
      by auto
  qed
  from Weight_Fill_boundaries[OF ne pos cap H]
  have inst: "\<exists>t. Weight_Fill ?w ?table = Inr (t, 10, None) \<and> length t = 10"
    by auto
  have run: "Weight_Fill ?w ?table = Inr ([0, 0, 0, 1, 1, 1, 1, 1, 1, 1], 10, None)"
    by code_simp
  from inst run show ?thesis by simp
qed

text \<open>
  Claim C1 as stated fails where the product overflows: with weights \<open>2^62, -2^62, 1\<close> (sum
  1) and four entries, run 0 already satisfies the stated inequality at index 0, so the
  claim asks for entry \<open>S + 0\<close>; the code computes \<open>4 * 2^62\<close>, which wraps to 0, moves on
  to run 2 and stores \<open>S + 2\<close> everywhere.
\<close>

theorem Weight_Fill_overflow_counterexample:
  "[0, 0, 0, 0] \<noteq> ([] :: u32 list) \<and>
   0 < sum_list [2 ^ 62, - (2 ^ 62), 1 :: int] \<and>
   sum_list [2 ^ 62, - (2 ^ 62), 1 :: int] \<le> int (length [0, 0, 0, 0 :: u32]) \<and>
   int 0 < (int (length [0, 0, 0, 0 :: u32]) * sum_list (take (Suc 0) [2 ^ 62, - (2 ^ 62), 1]))
             div sum_list [2 ^ 62, - (2 ^ 62), 1] \<and>
   Weight_Fill \<lparr>Weight.Start = 0, Weights = [2 ^ 62, - (2 ^ 62), 1]\<rparr> [0, 0, 0, 0] =
     Inr ([2, 2, 2, 2], 4, None)"
proof -
  have "Weight_Fill \<lparr>Weight.Start = 0, Weights = [2 ^ 62, - (2 ^ 62), 1]\<rparr> [0, 0, 0, 0] =
     Inr ([2, 2, 2, 2], 4, None)"
    by code_simp
  then show ?thesis by simp
qed

text \<open>
  The proviso of the amended claim holds whenever the weights are non-negative and the
  table has fewer than \<open>2^31\<close> entries.
\<close>

lemma sum_list_take_bounds:
  assumes "\<forall>x\<in>set ws. 0 \<le> (x::int)"
  shows "0 \<le> sum_list (take k ws) \<and> sum_list (take k ws) \<le> sum_list ws"
proof -
  have a: "0 \<le> sum_list (take k ws)"
    using assms by (intro sum_list_nonneg) (auto dest: in_set_takeD)
  have b: "0 \<le> sum_list (drop k ws)"
    using assms by (intro sum_list_nonneg) (auto dest: in_set_dropD)
  have "sum_list ws = sum_list (take k ws) + sum_list (drop k ws)"
    by (metis append_take_drop_id sum_list_append)
  with a b show ?thesis by simp
qed

lemma Weight_Fill_no_overflow:
  assumes nonneg: "\<forall>x\<in>set ws. 0 \<le> (x::int)"
    and cap: "sum_list ws \<le> int L" and L: "L < 2 ^ 31"
  shows "\<forall>k\<le>length ws. - (2 ^ 63) \<le> int L * sum_list (take k ws) \<and>
                         int L * sum_list (take k ws) < 2 ^ 63"
proof (intro allI impI)
  fix k
  from sum_list_take_bounds[OF nonneg, of k] cap
  have p: "0 \<le> sum_list (take k ws)" "sum_list (take k ws) \<le> int L" by auto
  have L': "int L \<le> 2 ^ 31 - 1" using L by simp
  have "int L * sum_list (take k ws) \<le> int L * int L"
    using p by (intro mult_left_mono) simp_all
  also have "\<dots> \<le> (2 ^ 31 - 1) * (2 ^ 31 - 1)"
    using L' by (intro mult_mono) simp_all
  finally have "int L * sum_list (take k ws) < 2 ^ 63" by simp
  moreover have "0 \<le> int L * sum_list (take k ws)" using p by simp
  ultimately show "- (2 ^ 63) \<le> int L * sum_list (take k ws) \<and>
                   int L * sum_list (take k ws) < 2 ^ 63" by simp
qed

text \<open>
  It cannot be dropped for non-negative weights either: with the single weight
  \<open>3037000500\<close> and a table of as many entries, \<open>len(table)*partial\<close> exceeds \<open>2^63\<close>, the
  threshold turns negative and the loop runs past the end of the weights.
\<close>

lemma Weight_Fill_large_table_panics:
  "Weight_Fill \<lparr>Weight.Start = 0, Weights = [3037000500]\<rparr> (replicate 3037000500 0) =
     Inl IndexOutOfRange"
proof -
  let ?w = "\<lparr>Weight.Start = 0, Weights = [3037000500]\<rparr>"
  have s: "Weight_sum ?w = 3037000500" by (simp add: Weight_sum_def wrap64_def)
  have i2: "Weight_Fill_inner ?w 3037000500 3037000500 0 0 3037000500 = Inl IndexOutOfRange"
    by (simp add: Weight_Fill_inner.simps[of _ _ _ _ 0] go_div_def wrap64_def
        signed_divide_int_def)
  have i1: "Weight_Fill_inner ?w 3037000500 3037000500 0 (- 1) 0 = Inl IndexOutOfRange"
    using i2 by (simp add: Weight_Fill_inner.simps[of _ _ _ _ "- 1"] go_div_def wrap64_def)
  have "Weight_Fill_loop ?w 3037000500 0 (- 1) 0 (replicate 3037000500 0) = Inl IndexOutOfRange"
    using i1 by (simp add: Weight_Fill_loop.simps[of _ _ 0])
  then show ?thesis using s by (simp add: Weight_Fill_def)
qed

text \<open>
  Claim C7, amended to what \<^verbatim>\<open>Weight.Fill\<close> does by itself. With \<open>sum\<close> the total that \<^verbatim>\<open>Fill\<close>
  computes (the sum of the weights in Go's 64-bit \<^verbatim>\<open>int\<close>): if \<open>sum = 0\<close> the result is the
  no-effective-weight error, if \<open>sum > len(table)\<close> it is the weight-exceeds-capacity
  error; in both cases the applied count is 0 and the table is as it was.
\<close>

theorem Weight_Fill_validation:
  "(Weight_sum w = 0 \<longrightarrow>
      Weight_Fill w table =
        Inr (table, 0, Some (ErrorsNew ''At least one weight must be non-zero''))) \<and>
   (Weight_sum w > int (length table) \<longrightarrow>
      Weight_Fill w table =
        Inr (table, 0,
          Some (ErrorsNew ''Total weight exceeds the size of the indirection table'')))"
  by (auto simp: Weight_Fill_def Let_def)

theorem Weight_Fill_validation_witness:
  "Weight_sum \<lparr>Weight.Start = 0, Weights = [0, 0]\<rparr> = 0 \<and>
   Weight_Fill \<lparr>Weight.Start = 0, Weights = [0, 0]\<rparr> [1, 2, 3] =
     Inr ([1, 2, 3], 0, Some (ErrorsNew ''At least one weight must be non-zero'')) \<and>
   Weight_sum \<lparr>Weight.Start = 0, Weights = [5, 5]\<rparr> > int (length [0, 0, 0, 0, 0, 0, 0, 0, 0 :: u32]) \<and>
   Weight_Fill \<lparr>Weight.Start = 0, Weights = [5, 5]\<rparr> [0, 0, 0, 0, 0, 0, 0, 0, 0] =
     Inr ([0, 0, 0, 0, 0, 0, 0, 0, 0], 0,
       Some (ErrorsNew ''Total weight exceeds the size of the indirection table''))"
proof -
  have a: "Weight_sum \<lparr>Weight.Start = 0, Weights = [0, 0]\<rparr> = 0"
    by (simp add: Weight_sum_def wrap64_def)
  have b: "Weight_sum \<lparr>Weight.Start = 0, Weights = [5, 5]\<rparr> >
             int (length [0, 0, 0, 0, 0, 0, 0, 0, 0 :: u32])"
    by (simp add: Weight_sum_def wrap64_def)
  from Weight_Fill_validation[of "\<lparr>Weight.Start = 0, Weights = [0, 0]\<rparr>" "[1, 2, 3]"] a
    Weight_Fill_validation[of "\<lparr>Weight.Start = 0, Weights = [5, 5]\<rparr>"
      "[0, 0, 0, 0, 0, 0, 0, 0, 0]"] b
  show ?thesis by blast
qed

subsection \<open>The transport and the scripted device\<close>

lemma ioctl_scripted:
  "ioctl scripted \<lparr>state = (ep, out) # rest, trace = tr\<rparr> intf d =
     (\<lparr>state = rest,
        trace = tr @ [\<lparr>ifr_name = take IFNAMSIZ (intf @ replicate IFNAMSIZ (CHR 0x00)),
                       ifr_data = d\<rparr>]\<rparr>,
      (if ep \<noteq> 0 then Some (Errno ep) else None), writeback d out)"
  by (simp add: ioctl_def scripted_def)

lemmas device_defs = fresh_def rings_answer_def rxfh_answer_def indir_answer_def
  sset_answer_def strings_answer_def ethtoolRxfh_zero_def ethtoolRxnfc_GRXRINGS_def
  GRSSH_probe_def GRSSH_query_def overlay_def calloc_def sizeofEthtoolRxfh_def
  sizeofEthtoolRxfhIndir_def

lemma ioctl_err_Errno: "ioctl K e intf d = (e', Some err, b) \<Longrightarrow> \<exists>ep. err = Errno ep"
  by (auto simp: ioctl_def Let_def split: prod.splits if_splits)

lemma ioctl_Rxfh_shape:
  "ioctl K e intf (Rxfh h m) = (e', r, b) \<Longrightarrow> \<exists>h' m'. b = Rxfh h' m' \<and> length m' = length m"
proof -
  assume a: "ioctl K e intf (Rxfh h m) = (e', r, b)"
  obtain s ep out where k: "K (state e) \<lparr>ifr_name = take IFNAMSIZ (intf @ replicate IFNAMSIZ (CHR 0x00)),
                 ifr_data = Rxfh h m\<rparr> = (s, ep, out)"
    by (metis prod_cases3)
  with a have b: "b = writeback (Rxfh h m) out" by (simp add: ioctl_def)
  show ?thesis unfolding b by (cases out) (auto simp: overlay_def)
qed

lemma raw_elems_zero: "4 * n \<le> m \<Longrightarrow> raw_elems (replicate m 0) n = replicate n 0"
proof -
  assume a: "4 * n \<le> m"
  have "le_u32 (take 4 (drop (4 * k) (replicate m 0))) = 0" if "k < n" for k
  proof -
    have "take 4 (drop (4 * k) (replicate m (0::u8))) = replicate 4 0"
      using that a by (simp add: min_def)
    then show ?thesis by (simp add: le_u32_def numeral_eq_Suc)
  qed
  then show ?thesis
    by (auto simp: raw_elems_def intro!: replicate_eqI)
qed

lemma length_raw_elems [simp]: "length (raw_elems ptr n) = n"
  by (simp add: raw_elems_def)

lemma length_copy_raw: "copy_raw table raw = Inr t \<Longrightarrow> length t = length table"
  by (auto simp: copy_raw_def Let_def min_def split: prod.splits if_splits)

lemmas GetFlowHash_eval = GetFlowHash_def GetFlowHash_decode_def getFlowHashIndirectTable_def
  getStringSet_def getStringSet_with_def getStringSet_length_def getStringSet_strings_def
  ioctl_scripted device_defs NewConfig_def WithRSSContext_def NewIndirectTable_def Size_def
  IndirectTableItemSize_def UnsafeRawIndirectTable_def copy_raw_def raw_elems_def le_u32_def
  GoBytes_def issued_def Let_def

lemmas GetFlowHash_monolithic_eval = GetFlowHash_monolithic_def GetFlowHash_decode_monolithic_def
  getFlowHashIndirectTable_monolithic_def getStringSet_monolithic_def getStringSet_with_def
  getStringSet_length_def getStringSet_strings_def
  ioctl_scripted device_defs WithRSSContext_monolithic_def
  UnsafeRawIndirectTable_def copy_raw_def raw_elems_def le_u32_def
  GoBytes_def issued_def Let_def


subsection \<open>\<^verbatim>\<open>SetFlowHash\<close>\<close>

text \<open>
  Claim C4 says that, for an \<^verbatim>\<open>Equal\<close> or \<^verbatim>\<open>Weight\<close> action and a successful \<^verbatim>\<open>ETHTOOL_GRSSH\<close>
  probe, \<^verbatim>\<open>SetFlowHash\<close> fills the table region, stores the applied count, issues
  \<^verbatim>\<open>ETHTOOL_SRSSH\<close> and returns normally. The code tests the action with one-result type
  assertions: with \<^verbatim>\<open>&Equal{Start: 0, N: 2}\<close>, on a device that reports four table entries,
  \<^verbatim>\<open>c.Action.(*flowhash.Delete)\<close> panics before the fill; only the two probes were issued.
\<close>

theorem SetFlowHash_Equal_panics:
  "snd (SetFlowHash scripted (fresh [rings_answer 4, rxfh_answer 0 4 0 0 []]) ''eth0''
     [WithAction (Action_Equal (Some \<lparr>Equal.Start = 0, N = 2\<rparr>))]) =
     Panic InterfaceConversion \<and>
   issued (fst (SetFlowHash scripted (fresh [rings_answer 4, rxfh_answer 0 4 0 0 []]) ''eth0''
     [WithAction (Action_Equal (Some \<lparr>Equal.Start = 0, N = 2\<rparr>))])) =
   [ETHTOOL_GRXRINGS, ETHTOOL_GRSSH]"
  by (simp add: SetFlowHash_def ioctl_scripted device_defs NewSetConfig_def WithAction_def
      SetFlowHash_indirBytes_def SetFlowHash_hfunc_def SetFlowHash_request_def issued_def Let_def)

text \<open>
  The same holds on every device and for every action: once both probes have succeeded,
  \<^verbatim>\<open>SetFlowHash\<close> never returns a value.
\<close>

lemma SetFlowHash_request_not_Ok:
  "assert_Equal (Action c) = Inr pe \<Longrightarrow> result_ok (snd (SetFlowHash_request K e intf c head n h)) = None"
  by (cases "Action c") (simp_all add: SetFlowHash_request_def Let_def)

lemma SetFlowHash_indirBytes_Inr:
  "SetFlowHash_indirBytes c head = Inr n \<Longrightarrow> \<exists>pe. assert_Equal (Action c) = Inr pe"
  by (cases "Action c") (simp_all add: SetFlowHash_indirBytes_def)

lemma SetFlowHash_after_probe:
  assumes rings: "ioctl K e intf (Rxnfc ethtoolRxnfc_GRXRINGS) = (e1, None, b1)"
    and probe: "ioctl K e1 intf (GRSSH_probe 0) = (e2, None, b2)"
  shows "result_ok (snd (SetFlowHash K e intf opts)) = None"
proof (cases "SetFlowHash_indirBytes (NewSetConfig opts) (fst (as_Rxfh b2))")
  case (Inl p)
  with rings probe show ?thesis by (simp add: SetFlowHash_def Let_def)
next
  case (Inr n)
  from SetFlowHash_indirBytes_Inr[OF Inr] obtain pe where
    pe: "assert_Equal (Action (NewSetConfig opts)) = Inr pe" by blast
  obtain e3 r where h: "SetFlowHash_hfunc K e2 intf (NewSetConfig opts) (fst (as_Rxfh b2)) = (e3, r)"
    by (cases "SetFlowHash_hfunc K e2 intf (NewSetConfig opts) (fst (as_Rxfh b2))")
  show ?thesis
    using rings probe Inr h SetFlowHash_request_not_Ok[OF pe]
    by (cases r) (simp_all add: SetFlowHash_def Let_def)
qed

text \<open>
  Claim C7 as stated also says that within \<^verbatim>\<open>SetFlowHash\<close> the policy error is reported
  before any ioctl is issued. With the weights \<open>0, 0\<close> the call issues both probes and then
  panics at \<^verbatim>\<open>c.Action.(*flowhash.Equal)\<close>; no error is reported.
\<close>

theorem SetFlowHash_Weight_error_counterexample:
  "snd (SetFlowHash scripted (fresh [rings_answer 4, rxfh_answer 0 4 0 0 []]) ''eth0''
     [WithAction (Action_Weight (Some \<lparr>Weight.Start = 0, Weights = [0, 0]\<rparr>))]) =
     Panic InterfaceConversion \<and>
   issued (fst (SetFlowHash scripted (fresh [rings_answer 4, rxfh_answer 0 4 0 0 []]) ''eth0''
     [WithAction (Action_Weight (Some \<lparr>Weight.Start = 0, Weights = [0, 0]\<rparr>))])) =
   [ETHTOOL_GRXRINGS, ETHTOOL_GRSSH]"
  by (simp add: SetFlowHash_def ioctl_scripted device_defs NewSetConfig_def WithAction_def
      SetFlowHash_indirBytes_def SetFlowHash_hfunc_def SetFlowHash_request_def issued_def Let_def)

subsection \<open>\<^verbatim>\<open>GetFlowHash\<close>: a zero hash-function bitmask\<close>

lemma GetFlowHash_decode_zero_hfunc:
  assumes "hfunc rss = 0"
  shows "fst (GetFlowHash_decode K e intf rc table sz rss mem) = e \<and>
         result_ok (snd (GetFlowHash_decode K e intf rc table sz rss mem)) = None"
  using assms
  by (auto simp: GetFlowHash_decode_def Let_def split: sum.splits result.splits if_splits)

lemma GetFlowHash_decode_zero_hfunc_ENOTSUP:
  assumes "hfunc rss = 0"
    and "sz = sizeofEthtoolRxfh + Size table + ksz"
    and "length mem = sz - sizeofEthtoolRxfh"
    and "unat (indir_size rss) \<le> 2 ^ 24"
    and "unat (key_size rss) \<le> ksz"
    and "unat (key_size rss) < 2 ^ 31"
  shows "GetFlowHash_decode K e intf rc table sz rss mem = (e, Err (Errno ENOTSUP))"
  using assms
  by (auto simp: GetFlowHash_decode_def Let_def UnsafeRawIndirectTable_def copy_raw_def GoBytes_def
      Size_def IndirectTableItemSize_def sizeofEthtoolRxfh_def min_def
      split: sum.splits result.splits if_splits)

text \<open>
  The bound on the key size is needed: \<^verbatim>\<open>C.GoBytes\<close> takes the length as a \<^verbatim>\<open>C.int\<close>, and a
  reported \<^verbatim>\<open>key_size\<close> of \<open>2^31\<close> or more that still fits the allocation ends the call in a
  panic before the test of \<^verbatim>\<open>hfunc\<close>.
\<close>

lemma GetFlowHash_decode_large_key_panics:
  assumes "2 ^ 31 \<le> unat (key_size rss)"
    and "unat (indir_size rss) \<le> 2 ^ 24"
    and "sizeofEthtoolRxfh + Size table + unat (key_size rss) \<le> sz"
    and "4 * length table \<le> length mem"
  shows "GetFlowHash_decode K e intf rc table sz rss mem = (e, Panic GoBytesLength)"
proof -
  have k: "key_size rss > 0"
    using assms(1) by (simp add: word_greater_zero_iff unat_eq_0[symmetric] del: unat_eq_0)
  show ?thesis
    using assms k
    by (auto simp: GetFlowHash_decode_def Let_def UnsafeRawIndirectTable_def copy_raw_def
        GoBytes_def Size_def IndirectTableItemSize_def sizeofEthtoolRxfh_def min_def
        split: sum.splits result.splits if_splits)
qed

text \<open>
  Claim C5, amended. For every device on which the ring count, the probe and the full-size
  \<^verbatim>\<open>ETHTOOL_GRSSH\<close> query succeed and the returned \<^verbatim>\<open>hfunc\<close> is zero, \<^verbatim>\<open>GetFlowHash\<close> returns no
  \<^verbatim>\<open>FlowHash\<close> and issues no further ioctl; when the reported \<^verbatim>\<open>indir_size\<close> is at most \<open>2^24\<close>
  (the slicing bound) and the reported \<^verbatim>\<open>key_size\<close> is below \<open>2^31\<close> (the bound of \<^verbatim>\<open>C.GoBytes\<close>)
  and does not exceed the probed one, the result is the bare error \<^verbatim>\<open>ENOTSUP\<close>.
\<close>

theorem GetFlowHash_zero_hfunc:
  assumes rings: "ioctl K e intf (Rxnfc ethtoolRxnfc_GRXRINGS) = (e1, None, b1)"
    and probe: "ioctl K e1 intf (GRSSH_probe (Config.Context (NewConfig opts))) = (e2, None, b2)"
    and query: "ioctl K e2 intf
                  (GRSSH_query (Config.Context (NewConfig opts)) (fst (as_Rxfh b2))
                     (sizeofEthtoolRxfh + 4 * unat (indir_size (fst (as_Rxfh b2))) +
                      unat (key_size (fst (as_Rxfh b2))))) = (e3, None, b3)"
    and zero: "hfunc (fst (as_Rxfh b3)) = 0"
  shows "fst (GetFlowHash K e intf opts) = e3 \<and>
         result_ok (snd (GetFlowHash K e intf opts)) = None \<and>
         (unat (indir_size (fst (as_Rxfh b3))) \<le> 2 ^ 24 \<and>
          unat (key_size (fst (as_Rxfh b3))) \<le> unat (key_size (fst (as_Rxfh b2))) \<and>
          unat (key_size (fst (as_Rxfh b3))) < 2 ^ 31 \<longrightarrow>
          snd (GetFlowHash K e intf opts) = Err (Errno ENOTSUP))"
proof -
  let ?head = "fst (as_Rxfh b2)"
  let ?table = "NewIndirectTable (unat (indir_size ?head))"
  let ?sz = "sizeofEthtoolRxfh + Size ?table + unat (key_size ?head)"
  let ?rc = "sint (ethtoolRxnfc.data (as_Rxnfc b1))"
  have sz: "?sz = sizeofEthtoolRxfh + 4 * unat (indir_size ?head) + unat (key_size ?head)"
    by (simp add: Size_def NewIndirectTable_def IndirectTableItemSize_def)
  have run: "GetFlowHash K e intf opts =
      GetFlowHash_decode K e3 intf ?rc ?table ?sz (fst (as_Rxfh b3)) (snd (as_Rxfh b3))"
    using rings probe query by (simp add: GetFlowHash_def Let_def sz)
  from ioctl_Rxfh_shape[OF query[unfolded GRSSH_query_def]] obtain h' m' where
    b3: "b3 = Rxfh h' m'" and len: "length m' = length (calloc sizeofEthtoolRxfh ?sz)"
    by (auto simp: sz)
  have lenm: "length (snd (as_Rxfh b3)) = ?sz - sizeofEthtoolRxfh"
    using b3 len by (simp add: calloc_def)
  from GetFlowHash_decode_zero_hfunc[OF zero, of K e3 intf ?rc ?table ?sz "snd (as_Rxfh b3)"]
  have a: "fst (GetFlowHash K e intf opts) = e3"
    "result_ok (snd (GetFlowHash K e intf opts)) = None"
    unfolding run by simp_all
  have b: "snd (GetFlowHash K e intf opts) = Err (Errno ENOTSUP)"
    if "unat (indir_size (fst (as_Rxfh b3))) \<le> 2 ^ 24"
       "unat (key_size (fst (as_Rxfh b3))) \<le> unat (key_size ?head)"
       "unat (key_size (fst (as_Rxfh b3))) < 2 ^ 31"
    unfolding run
    using GetFlowHash_decode_zero_hfunc_ENOTSUP[OF zero refl lenm that, of K e3 intf ?rc]
    by simp
  from a b show ?thesis by blast
qed

theorem GetFlowHash_zero_hfunc_witness:
  "snd (GetFlowHash scripted
          (fresh [rings_answer 4, rxfh_answer 0 2 0 1 [],
                  rxfh_answer 0 2 0 0 [1, 0, 0, 0, 3, 0, 0, 0]]) ''eth0'' []) =
     Err (Errno ENOTSUP) \<and>
   issued (fst (GetFlowHash scripted
          (fresh [rings_answer 4, rxfh_answer 0 2 0 1 [],
                  rxfh_answer 0 2 0 0 [1, 0, 0, 0, 3, 0, 0, 0]]) ''eth0'' [])) =
     [ETHTOOL_GRXRINGS, ETHTOOL_GRSSH, ETHTOOL_GRSSH]"
proof -
  let ?a3 = "rxfh_answer 0 2 0 0 [1, 0, 0, 0, 3, 0, 0, 0]"
  let ?e = "fresh [rings_answer 4, rxfh_answer 0 2 0 1 [], ?a3]"
  let ?name = "take IFNAMSIZ (''eth0'' @ replicate IFNAMSIZ (CHR 0x00))"
  let ?r1 = "\<lparr>ifr_name = ?name, ifr_data = Rxnfc ethtoolRxnfc_GRXRINGS\<rparr>"
  let ?r2 = "\<lparr>ifr_name = ?name, ifr_data = GRSSH_probe 0\<rparr>"
  let ?head = "ethtoolRxfh_zero\<lparr>ethtoolRxfh.cmd := ETHTOOL_GRSSH, indir_size := 2,
                                key_size := 0, hfunc := 1\<rparr>"
  let ?q = "GRSSH_query 0 ?head (sizeofEthtoolRxfh + 4 * unat (indir_size ?head) +
                                  unat (key_size ?head))"
  let ?r3 = "\<lparr>ifr_name = ?name, ifr_data = ?q\<rparr>"
  let ?e1 = "\<lparr>state = [rxfh_answer 0 2 0 1 [], ?a3], trace = [?r1]\<rparr>"
  let ?e2 = "\<lparr>state = [?a3], trace = [?r1, ?r2]\<rparr>"
  let ?e3 = "\<lparr>state = [], trace = [?r1, ?r2, ?r3]\<rparr>"
  let ?b3 = "Rxfh (ethtoolRxfh_zero\<lparr>ethtoolRxfh.cmd := ETHTOOL_GRSSH, indir_size := 2,
                                      key_size := 0, hfunc := 0\<rparr>) [1, 0, 0, 0, 3, 0, 0, 0]"
  have ctx: "Config.Context (NewConfig []) = 0" by (simp add: NewConfig_def)
  have rings: "ioctl scripted ?e ''eth0'' (Rxnfc ethtoolRxnfc_GRXRINGS) =
      (?e1, None, Rxnfc (ethtoolRxnfc_GRXRINGS\<lparr>ethtoolRxnfc.data := 4\<rparr>))"
    by (simp add: fresh_def rings_answer_def ioctl_scripted)
  have probe: "ioctl scripted ?e1 ''eth0'' (GRSSH_probe (Config.Context (NewConfig []))) =
      (?e2, None, Rxfh ?head [])"
    by (simp add: ctx rxfh_answer_def ioctl_scripted GRSSH_probe_def overlay_def)
  have query: "ioctl scripted ?e2 ''eth0''
      (GRSSH_query (Config.Context (NewConfig [])) (fst (as_Rxfh (Rxfh ?head [])))
         (sizeofEthtoolRxfh + 4 * unat (indir_size (fst (as_Rxfh (Rxfh ?head [])))) +
          unat (key_size (fst (as_Rxfh (Rxfh ?head [])))))) = (?e3, None, ?b3)"
    by (simp add: ctx rxfh_answer_def ioctl_scripted GRSSH_query_def overlay_def calloc_def
        sizeofEthtoolRxfh_def ethtoolRxfh_zero_def)
  have zero: "hfunc (fst (as_Rxfh ?b3)) = 0" by simp
  from GetFlowHash_zero_hfunc[OF rings probe query zero]
  have "fst (GetFlowHash scripted ?e ''eth0'' []) = ?e3"
    "snd (GetFlowHash scripted ?e ''eth0'' []) = Err (Errno ENOTSUP)"
    by (simp_all add: ethtoolRxfh_zero_def)
  then show ?thesis
    by (simp add: issued_def GRSSH_probe_def GRSSH_query_def ethtoolRxnfc_GRXRINGS_def)
qed

text \<open>
  Claim C5 as stated asks for a successful \<^verbatim>\<open>FlowHash\<close> with ring count, table and key. On a
  device with 8 rings, one table entry and a two-byte key that reports \<^verbatim>\<open>hfunc = 0\<close>, the call
  fails with \<^verbatim>\<open>ENOTSUP\<close>.
\<close>

theorem GetFlowHash_zero_hfunc_counterexample:
  "result_ok (snd (GetFlowHash scripted
          (fresh [rings_answer 8, rxfh_answer 0 1 2 1 [],
                  rxfh_answer 0 1 2 0 [5, 0, 0, 0, 170, 187]]) ''eth0'' [])) = None \<and>
   snd (GetFlowHash scripted
          (fresh [rings_answer 8, rxfh_answer 0 1 2 1 [],
                  rxfh_answer 0 1 2 0 [5, 0, 0, 0, 170, 187]]) ''eth0'' []) =
     Err (Errno ENOTSUP)"
  by (simp add: GetFlowHash_eval ENOTSUP_def)

subsection \<open>\<^verbatim>\<open>GetFlowHash\<close>: the bounds checks\<close>

text \<open>
  Claim C6 says that a response whose \<^verbatim>\<open>indir_size\<close> puts the end of the table beyond the
  allocation makes \<^verbatim>\<open>GetFlowHash\<close> fail with \<^verbatim>\<open>ERANGE\<close>. The refactored code compares the size of
  the table it allocated from the probe, not the reported one: on a device that probes
  two entries and then reports four (end of table at byte 40 of a 32-byte buffer) it
  returns the two entries it has room for, with no error. The monolithic version, which
  compares the reported size, returns \<^verbatim>\<open>ERANGE\<close> on the same device.
\<close>

theorem GetFlowHash_oversized_indir_size:
  "map_option Table (result_ok (snd (GetFlowHash scripted
      (fresh [rings_answer 4, rxfh_answer 0 2 0 1 [],
              rxfh_answer 0 4 0 1 [1, 0, 0, 0, 3, 0, 0, 0],
              sset_answer 1, strings_answer 1 ''toeplitz'']) ''eth0'' []))) = Some [1, 3] \<and>
   snd (GetFlowHash_monolithic scripted
      (fresh [rings_answer 4, rxfh_answer 0 2 0 1 [],
              rxfh_answer 0 4 0 1 [1, 0, 0, 0, 3, 0, 0, 0],
              sset_answer 1, strings_answer 1 ''toeplitz'']) ''eth0'' []) =
     Err (Errorf ''get RX flow indirect table, '' (Errno ERANGE))"
proof -
  have a: "map_option Table (result_ok (snd (GetFlowHash scripted
      (fresh [rings_answer 4, rxfh_answer 0 2 0 1 [],
              rxfh_answer 0 4 0 1 [1, 0, 0, 0, 3, 0, 0, 0],
              sset_answer 1, strings_answer 1 ''toeplitz'']) ''eth0'' []))) = Some [1, 3]"
    by (simp add: GetFlowHash_eval ETH_SS_RSS_HASH_FUNCS_def MAX_GSTRINGS_def upt_rec)
  have b: "snd (GetFlowHash_monolithic scripted
      (fresh [rings_answer 4, rxfh_answer 0 2 0 1 [],
              rxfh_answer 0 4 0 1 [1, 0, 0, 0, 3, 0, 0, 0],
              sset_answer 1, strings_answer 1 ''toeplitz'']) ''eth0'' []) =
     Err (Errorf ''get RX flow indirect table, '' (Errno ERANGE))"
    by (simp add: GetFlowHash_monolithic_eval)
  from a b show ?thesis by simp
qed

text \<open>In the refactored version the table check can never fire.\<close>

lemma GetFlowHash_decode_no_table_ERANGE:
  assumes "sz = sizeofEthtoolRxfh + Size table + ksz"
  shows "snd (GetFlowHash_decode K e intf rc table sz rss mem) \<noteq>
           Err (Errorf ''get RX flow indirect table, '' (Errno ERANGE))"
  using assms
  by (auto simp: GetFlowHash_decode_def Let_def split: sum.splits result.splits if_splits prod.splits)

subsection \<open>\<^verbatim>\<open>GetFlowHash\<close>: the legacy fallback\<close>

text \<open>
  Claim C8 says that the fallback returns the entries the kernel wrote after the legacy
  header. \<^verbatim>\<open>getFlowHashIndirectTable\<close> passes the 8-byte probe header \<^verbatim>\<open>indirHead\<close> to the
  second \<^verbatim>\<open>ETHTOOL_GRXFHINDIR\<close> call instead of the buffer \<^verbatim>\<open>indir\<close> it allocated, and then
  reads the table from \<^verbatim>\<open>indir\<close>, which nothing has written: for a device whose table is
  \<open>5, 6\<close> the result is \<open>0, 0\<close>, and the fourth request carries no room for a table.
\<close>

theorem GetFlowHash_legacy_fallback_zero_table:
  "map_option Table (result_ok (snd (GetFlowHash scripted
      (fresh [rings_answer 4, rxfh_answer EOPNOTSUPP 0 0 0 [],
              indir_answer 0 2 [], indir_answer 0 2 [5, 0, 0, 0, 6, 0, 0, 0]])
      ''eth0'' [WithRSSContext 1]))) = Some [0, 0] \<and>
   map ifr_data (trace (fst (GetFlowHash scripted
      (fresh [rings_answer 4, rxfh_answer EOPNOTSUPP 0 0 0 [],
              indir_answer 0 2 [], indir_answer 0 2 [5, 0, 0, 0, 6, 0, 0, 0]])
      ''eth0'' [WithRSSContext 1]))) ! 3 =
     RxfhIndir \<lparr>ethtoolRxfhIndir.cmd = ETHTOOL_GRXFHINDIR, size' = 2\<rparr> []"
proof -
  have "raw_elems (replicate 8 0) 2 = replicate 2 0"
    by (rule raw_elems_zero) simp
  then have z: "raw_elems (replicate 8 0) 2 = [0, 0]"
    by (simp add: numeral_2_eq_2)
  show ?thesis
    unfolding GetFlowHash_def getFlowHashIndirectTable_def
    by (simp add: ioctl_scripted device_defs NewConfig_def WithRSSContext_def
        NewIndirectTable_def Size_def IndirectTableItemSize_def UnsafeRawIndirectTable_def
        copy_raw_def z EOPNOTSUPP_def Let_def)
qed

text \<open>On every device the table of the fallback holds nothing but zeros.\<close>

lemma getFlowHashIndirectTable_zero:
  assumes "getFlowHashIndirectTable K e intf = (e', Ok t)"
  shows "t = replicate (length t) 0"
  using assms
  by (auto simp: getFlowHashIndirectTable_def Let_def UnsafeRawIndirectTable_def copy_raw_def
      NewIndirectTable_def Size_def IndirectTableItemSize_def calloc_def raw_elems_zero min_def
      sizeofEthtoolRxfhIndir_def
      split: prod.splits option.splits sum.splits if_splits)

subsection \<open>The two versions of \<^verbatim>\<open>GetFlowHash\<close>\<close>

lemma getStringSet_monolithic_eq:
  "getStringSet_monolithic K e intf ss 0 = getStringSet K e intf ss 0"
proof -
  have "getStringSet_length f K e intf ss 0 = getStringSet_length g K e intf ss 0" for f g
    by (simp add: getStringSet_length_def split: prod.splits option.splits)
  from this[of "\<lambda>err target. err = Errno target" errors_Is] show ?thesis
    by (simp add: getStringSet_monolithic_def getStringSet_def getStringSet_with_def)
qed

lemma getFlowHashIndirectTable_monolithic_eq:
  "getFlowHashIndirectTable_monolithic K e intf = getFlowHashIndirectTable K e intf"
  by (simp add: getFlowHashIndirectTable_monolithic_def getFlowHashIndirectTable_def
      NewIndirectTable_def Size_def IndirectTableItemSize_def Let_def
      split: prod.splits option.splits)

lemma GetFlowHash_decode_monolithic_eq:
  assumes "table = NewIndirectTable (unat (indir_size rss))"
  shows "GetFlowHash_decode_monolithic K e intf rc sz rss mem =
         GetFlowHash_decode K e intf rc table sz rss mem"
proof -
  have len: "length t = unat (indir_size rss)"
    if "copy_raw (replicate (unat (indir_size rss)) 0) raw = Inr t" for raw t
    using length_copy_raw[OF that] by simp
  show ?thesis
    unfolding GetFlowHash_decode_monolithic_def GetFlowHash_decode_def assms
    by (auto simp: NewIndirectTable_def Size_def IndirectTableItemSize_def Let_def
        getStringSet_monolithic_eq len split: sum.splits)
qed

lemma foldl_WithRSSContext:
  "flowHashConfig.rss_context
     (foldl (\<lambda>c opt. opt c) c1 (map WithRSSContext_monolithic cs)) =
   Config.Context (foldl (\<lambda>c opt. opt c) c2 (map WithRSSContext cs))"
  if "flowHashConfig.rss_context c1 = Config.Context c2"
  using that
  by (induction cs arbitrary: c1 c2) (simp_all add: WithRSSContext_monolithic_def WithRSSContext_def)

text \<open>
  Claim C10. For every interface name, every list of context options and every device that,
  whenever the ring count, the probe and the full-size \<^verbatim>\<open>ETHTOOL_GRSSH\<close> query succeed, reports
  in the full-size response the \<^verbatim>\<open>indir_size\<close> and \<^verbatim>\<open>key_size\<close> of the probe, the monolithic
  and the refactored \<^verbatim>\<open>GetFlowHash\<close> give the same outcome: the same \<^verbatim>\<open>FlowHash\<close>, error or
  panic, after the same requests.
\<close>

theorem GetFlowHash_versions_agree:
  assumes echo: "\<And>e1 b1 e2 b2 e3 b3.
         ioctl K e intf (Rxnfc ethtoolRxnfc_GRXRINGS) = (e1, None, b1) \<Longrightarrow>
         ioctl K e1 intf
           (GRSSH_probe (Config.Context (NewConfig (map WithRSSContext cs)))) =
           (e2, None, b2) \<Longrightarrow>
         ioctl K e2 intf
           (GRSSH_query (Config.Context (NewConfig (map WithRSSContext cs))) (fst (as_Rxfh b2))
              (sizeofEthtoolRxfh + 4 * unat (indir_size (fst (as_Rxfh b2))) +
               unat (key_size (fst (as_Rxfh b2))))) = (e3, None, b3) \<Longrightarrow>
         indir_size (fst (as_Rxfh b3)) = indir_size (fst (as_Rxfh b2)) \<and>
         key_size (fst (as_Rxfh b3)) = key_size (fst (as_Rxfh b2))"
  shows "GetFlowHash_monolithic K e intf (map WithRSSContext_monolithic cs) =
         GetFlowHash K e intf (map WithRSSContext cs)"
proof -
  let ?opts = "map WithRSSContext cs"
  let ?opts' = "map WithRSSContext_monolithic cs"
  have ctx: "flowHashConfig.rss_context
               (foldl (\<lambda>c opt. opt c) \<lparr>flowHashConfig.rss_context = 0\<rparr> ?opts') =
             Config.Context (NewConfig ?opts)"
    unfolding NewConfig_def by (rule foldl_WithRSSContext) simp
  show ?thesis
  proof (cases "ioctl K e intf (Rxnfc ethtoolRxnfc_GRXRINGS)")
  case (fields e1 r1 b1)
  show ?thesis
  proof (cases r1)
    case (Some err)
    with fields show ?thesis
      by (simp add: GetFlowHash_monolithic_def GetFlowHash_def Let_def)
  next
    case None
    note rings = fields[unfolded None]
    show ?thesis
    proof (cases "ioctl K e1 intf (GRSSH_probe (Config.Context (NewConfig ?opts)))")
      case (fields e2 r2 b2)
      show ?thesis
      proof (cases r2)
        case (Some err)
        from ioctl_err_Errno[OF fields[unfolded Some]] obtain ep where ep: "err = Errno ep"
          by blast
        show ?thesis
          using rings fields Some ep ctx
          by (simp add: GetFlowHash_monolithic_def GetFlowHash_def Let_def
              getFlowHashIndirectTable_monolithic_eq)
      next
        case None
        note probe = fields[unfolded None]
        let ?head = "fst (as_Rxfh b2)"
        let ?sz = "sizeofEthtoolRxfh + 4 * unat (indir_size ?head) + unat (key_size ?head)"
        have sz1: "sizeofEthtoolRxfh + unat (indir_size ?head) * 4 + unat (key_size ?head) = ?sz"
          by simp
        have sz2: "sizeofEthtoolRxfh + Size (NewIndirectTable (unat (indir_size ?head))) +
                     unat (key_size ?head) = ?sz"
          by (simp add: Size_def NewIndirectTable_def IndirectTableItemSize_def)
        show ?thesis
        proof (cases "ioctl K e2 intf (GRSSH_query (Config.Context (NewConfig ?opts)) ?head ?sz)")
          case (fields e3 r3 b3)
          show ?thesis
          proof (cases r3)
            case (Some err)
            with rings probe fields ctx show ?thesis
              by (simp add: GetFlowHash_monolithic_def GetFlowHash_def Let_def sz1 sz2)
          next
            case None
            note query = fields[unfolded None]
            from echo[OF rings probe query]
            have isz: "indir_size (fst (as_Rxfh b3)) = indir_size ?head" by simp
            have dec: "GetFlowHash_decode_monolithic K e3 intf
                         (sint (ethtoolRxnfc.data (as_Rxnfc b1))) ?sz
                         (fst (as_Rxfh b3)) (snd (as_Rxfh b3)) =
                       GetFlowHash_decode K e3 intf (sint (ethtoolRxnfc.data (as_Rxnfc b1)))
                         (NewIndirectTable (unat (indir_size ?head))) ?sz
                         (fst (as_Rxfh b3)) (snd (as_Rxfh b3))"
              by (rule GetFlowHash_decode_monolithic_eq) (simp add: isz)
            from rings probe query ctx dec show ?thesis
              by (simp add: GetFlowHash_monolithic_def GetFlowHash_def Let_def sz1 sz2)
          qed
        qed
      qed
    qed
  qed
qed
qed

theorem GetFlowHash_versions_agree_witness:
  "GetFlowHash_monolithic scripted
     (fresh [rings_answer 4, rxfh_answer 0 2 2 1 [],
             rxfh_answer 0 2 2 1 [1, 0, 0, 0, 3, 0, 0, 0, 170, 187],
             sset_answer 1, strings_answer 1 ''toeplitz''])
     ''eth0'' (map WithRSSContext_monolithic [7]) =
   GetFlowHash scripted
     (fresh [rings_answer 4, rxfh_answer 0 2 2 1 [],
             rxfh_answer 0 2 2 1 [1, 0, 0, 0, 3, 0, 0, 0, 170, 187],
             sset_answer 1, strings_answer 1 ''toeplitz''])
     ''eth0'' (map WithRSSContext [7]) \<and>
   map_option (\<lambda>fh. (RingCount fh, Table fh, FlowHash.Key fh))
     (result_ok (snd (GetFlowHash scripted
        (fresh [rings_answer 4, rxfh_answer 0 2 2 1 [],
                rxfh_answer 0 2 2 1 [1, 0, 0, 0, 3, 0, 0, 0, 170, 187],
                sset_answer 1, strings_answer 1 ''toeplitz''])
        ''eth0'' (map WithRSSContext [7])))) =
     Some (4, [1, 3], Some [170, 187])"
proof -
  let ?e = "fresh [rings_answer 4, rxfh_answer 0 2 2 1 [],
                   rxfh_answer 0 2 2 1 [1, 0, 0, 0, 3, 0, 0, 0, 170, 187],
                   sset_answer 1, strings_answer 1 ''toeplitz'']"
  have echo: "\<And>e1 b1 e2 b2 e3 b3.
         ioctl scripted ?e ''eth0'' (Rxnfc ethtoolRxnfc_GRXRINGS) = (e1, None, b1) \<Longrightarrow>
         ioctl scripted e1 ''eth0''
           (GRSSH_probe (Config.Context (NewConfig (map WithRSSContext [7])))) =
           (e2, None, b2) \<Longrightarrow>
         ioctl scripted e2 ''eth0''
           (GRSSH_query (Config.Context (NewConfig (map WithRSSContext [7]))) (fst (as_Rxfh b2))
              (sizeofEthtoolRxfh + 4 * unat (indir_size (fst (as_Rxfh b2))) +
               unat (key_size (fst (as_Rxfh b2))))) = (e3, None, b3) \<Longrightarrow>
         indir_size (fst (as_Rxfh b3)) = indir_size (fst (as_Rxfh b2)) \<and>
         key_size (fst (as_Rxfh b3)) = key_size (fst (as_Rxfh b2))"
    by (auto simp: ioctl_scripted device_defs NewConfig_def WithRSSContext_def)
  have run: "map_option (\<lambda>fh. (RingCount fh, Table fh, FlowHash.Key fh))
      (result_ok (snd (GetFlowHash scripted ?e ''eth0'' (map WithRSSContext [7])))) =
      Some (4, [1, 3], Some [170, 187])"
    by (simp add: GetFlowHash_eval ETH_SS_RSS_HASH_FUNCS_def MAX_GSTRINGS_def upt_rec)
  from GetFlowHash_versions_agree[of scripted ?e "''eth0''" "[7]", OF echo] run
  show ?thesis by simp
qed

subsection \<open>Further facts: what \<^verbatim>\<open>SetFlowHash\<close> issues\<close>

text \<open>
  On every device and for every action: once both probes have succeeded, \<^verbatim>\<open>SetFlowHash\<close>
  issues no \<^verbatim>\<open>ETHTOOL_SRSSH\<close> request (the only requests after the probes are those of the
  string-set query).
\<close>

lemma issued_ioctl: "ioctl K e intf d = (e', r, b) \<Longrightarrow> issued e' = issued e @ [buffer_cmd d]"
  by (auto simp: ioctl_def issued_def Let_def split: prod.splits)

lemma issued_getStringSet:
  assumes "getStringSet K e intf ss 0 = (e', r)"
  shows "\<exists>cs. issued e' = issued e @ cs \<and> set cs \<subseteq> {ETHTOOL_GSSET_INFO, ETHTOOL_GSTRINGS}"
proof -
  obtain e1 r1 b1 where i1: "ioctl K e intf (SsetInfo \<lparr>ethtoolSsetInfo.cmd = ETHTOOL_GSSET_INFO, reserved = 0,
             sset_mask = push_bit (unat ss) 1, data = 0\<rparr>) = (e1, r1, b1)"
    by (metis prod_cases3)
  note t1 = issued_ioctl[OF i1]
  show ?thesis
  proof (cases r1)
    case (Some err)
    with assms i1 t1 show ?thesis
      by (auto simp: getStringSet_def getStringSet_with_def getStringSet_length_def)
  next
    case None
    let ?n = "if sset_mask (as_SsetInfo b1) \<noteq> 0
              then ucast (ethtoolSsetInfo.data (as_SsetInfo b1)) else (0::u32)"
    have s: "getStringSet K e intf ss 0 = getStringSet_strings K e1 intf ss ?n"
      using i1 None
      by (simp add: getStringSet_def getStringSet_with_def getStringSet_length_def)
    obtain e2 r2 b2 where i2: "ioctl K e1 intf (GStrings \<lparr>ethtoolGStrings.cmd = ETHTOOL_GSTRINGS,
          string_set = ss, len = ?n, data = []\<rparr>) = (e2, r2, b2)"
      by (metis prod_cases3)
    note t2 = issued_ioctl[OF i2]
    from assms s i2 t1 t2 show ?thesis
      by (auto simp: getStringSet_strings_def Let_def split: if_splits option.splits)
  qed
qed

lemma SetFlowHash_no_SRSSH:
  assumes rings: "ioctl K e intf (Rxnfc ethtoolRxnfc_GRXRINGS) = (e1, None, b1)"
    and probe: "ioctl K e1 intf (GRSSH_probe 0) = (e2, None, b2)"
    and before: "ETHTOOL_SRSSH \<notin> set (issued e)"
  shows "ETHTOOL_SRSSH \<notin> set (issued (fst (SetFlowHash K e intf opts)))"
proof -
  let ?c = "NewSetConfig opts"
  let ?head = "fst (as_Rxfh b2)"
  have e2: "issued e2 = issued e @ [ETHTOOL_GRXRINGS, ETHTOOL_GRSSH]"
    using issued_ioctl[OF rings] issued_ioctl[OF probe]
    by (simp add: GRSSH_probe_def ethtoolRxnfc_GRXRINGS_def ethtoolRxfh_zero_def)
  have ne: "ETHTOOL_SRSSH \<notin> set (issued e2)"
    using before unfolding e2
    by (simp add: ETHTOOL_SRSSH_def ETHTOOL_GRXRINGS_def ETHTOOL_GRSSH_def)
  obtain e3 r where h: "SetFlowHash_hfunc K e2 intf ?c ?head = (e3, r)"
    by (cases "SetFlowHash_hfunc K e2 intf ?c ?head")
  have ne3: "ETHTOOL_SRSSH \<notin> set (issued e3)"
  proof (cases "hfunc ?head \<noteq> 0 \<and> length (Func ?c) > 0")
    case False
    with h ne show ?thesis by (auto simp: SetFlowHash_hfunc_def)
  next
    case True
    obtain e4 r4 where g: "getStringSet K e2 intf ETH_SS_RSS_HASH_FUNCS 0 = (e4, r4)"
      by (cases "getStringSet K e2 intf ETH_SS_RSS_HASH_FUNCS 0")
    from issued_getStringSet[OF g] obtain cs where cs: "issued e4 = issued e2 @ cs"
      "set cs \<subseteq> {ETHTOOL_GSSET_INFO, ETHTOOL_GSTRINGS}" by blast
    have "e3 = e4" using h g True
      by (cases r4) (auto simp: SetFlowHash_hfunc_def Let_def split: if_splits)
    with cs ne show ?thesis
      by (auto simp: ETHTOOL_SRSSH_def ETHTOOL_GSSET_INFO_def ETHTOOL_GSTRINGS_def)
  qed
  show ?thesis
  proof (cases "SetFlowHash_indirBytes ?c ?head")
    case (Inl p)
    with rings probe ne show ?thesis by (simp add: SetFlowHash_def Let_def)
  next
    case (Inr n)
    then obtain pe where pe: "Action ?c = Action_Equal pe"
      by (cases "Action ?c") (simp_all add: SetFlowHash_indirBytes_def)
    have req: "fst (SetFlowHash_request K e' intf ?c ?head n h') = e'" for e' h'
      using pe by (simp add: SetFlowHash_request_def Let_def)
    show ?thesis
      using rings probe Inr h ne3 req
      by (cases r) (simp_all add: SetFlowHash_def Let_def)
  qed
qed

subsection \<open>Further facts: the bounds of \<^verbatim>\<open>GetFlowHash\<close>\<close>

text \<open>
  The refactored \<^verbatim>\<open>GetFlowHash\<close> never reads outside the buffer it allocated, whatever the
  device reports, and it never returns the \<^verbatim>\<open>ERANGE\<close> error of its table check, neither on
  the main path nor in the fallback.
\<close>

lemma getStringSet_no_oob: "snd (getStringSet K e intf ss 0) \<noteq> Panic OutOfBoundsRead"
  by (auto simp: getStringSet_def getStringSet_with_def getStringSet_length_def
      getStringSet_strings_def Let_def split: prod.splits option.splits result.splits if_splits)

lemma GetFlowHash_decode_no_oob:
  assumes "sz = sizeofEthtoolRxfh + Size table + ksz"
    and "length mem = sz - sizeofEthtoolRxfh"
  shows "snd (GetFlowHash_decode K e intf rc table sz rss mem) \<noteq> Panic OutOfBoundsRead"
proof -
  have g: "snd (getStringSet K e intf ETH_SS_RSS_HASH_FUNCS 0) \<noteq> Panic OutOfBoundsRead"
    by (rule getStringSet_no_oob)
  have c: "copy_raw table (mem, n) \<noteq> Inl OutOfBoundsRead" for n
    using assms by (auto simp: copy_raw_def Let_def Size_def IndirectTableItemSize_def min_def)
  have k: "GoBytes mem (Size t) n \<noteq> Inl OutOfBoundsRead"
    if "length t = length table" "\<not> sizeofEthtoolRxfh + Size t + n > sz" for t n
    using that assms by (auto simp: GoBytes_def Size_def)
  show ?thesis
    using g c k
    by (auto simp: GetFlowHash_decode_def Let_def UnsafeRawIndirectTable_def
        dest!: length_copy_raw
        split: sum.splits result.splits if_splits prod.splits)
qed

lemma getFlowHashIndirectTable_no_oob:
  "snd (getFlowHashIndirectTable K e intf) \<noteq> Panic OutOfBoundsRead"
  by (auto simp: getFlowHashIndirectTable_def Let_def UnsafeRawIndirectTable_def copy_raw_def
      NewIndirectTable_def Size_def IndirectTableItemSize_def calloc_def min_def
      split: prod.splits option.splits sum.splits if_splits)

lemma getFlowHashIndirectTable_no_table_ERANGE:
  "snd (getFlowHashIndirectTable K e intf) \<noteq>
     Err (Errorf ''get RX flow indirect table, '' (Errno ERANGE))"
  by (auto simp: getFlowHashIndirectTable_def Let_def ENOTSUP_def
      split: prod.splits option.splits sum.splits if_splits)


lemma GetFlowHash_cases [consumes 0, case_names rings_err probe_err fallback query_err decode]:
  obtains
    (rings_err) e1 err b1 where
      "GetFlowHash K e intf opts = (e1, Err (Errorf ''get RX ring count, '' err))"
  | (probe_err) e2 err where
      "GetFlowHash K e intf opts =
         (e2, Err (Errorf ''get RX flow hash indir size and/or key size, '' err))"
  | (fallback) e2 rc where
      "snd (GetFlowHash K e intf opts) =
         map_result (\<lambda>table. \<lparr>RingCount = rc, Key = None, Funcs = None, Table = table\<rparr>)
           (snd (getFlowHashIndirectTable K e2 intf))"
  | (query_err) e3 err where
      "GetFlowHash K e intf opts =
         (e3, Err (Errorf ''get RX flow hash configuration, '' err))"
  | (decode) e2 e3 b3 rc n ksz ctx head where
      "ioctl K e2 intf (GRSSH_query ctx head
          (sizeofEthtoolRxfh + Size (NewIndirectTable n) + ksz)) = (e3, None, b3)"
      "GetFlowHash K e intf opts =
         GetFlowHash_decode K e3 intf rc (NewIndirectTable n)
           (sizeofEthtoolRxfh + Size (NewIndirectTable n) + ksz)
           (fst (as_Rxfh b3)) (snd (as_Rxfh b3))"
proof (cases "ioctl K e intf (Rxnfc ethtoolRxnfc_GRXRINGS)")
  case (fields e1 r1 b1)
  note rings = this
  show ?thesis
  proof (cases r1)
    case (Some err)
    with rings show ?thesis by (intro rings_err[of e1 err]) (simp add: GetFlowHash_def Let_def)
  next
    case None
    note rings = rings[unfolded None]
    show ?thesis
    proof (cases "ioctl K e1 intf (GRSSH_probe (Config.Context (NewConfig opts)))")
      case (fields e2 r2 b2)
      note probe = this
      show ?thesis
      proof (cases r2)
        case (Some err)
        show ?thesis
        proof (cases "errors_Is err EOPNOTSUPP \<and> Config.Context (NewConfig opts) \<noteq> 0")
          case True
          obtain e3 r3 where f: "getFlowHashIndirectTable K e2 intf = (e3, r3)"
            by (cases "getFlowHashIndirectTable K e2 intf")
          show ?thesis
            using rings probe Some True f
            by (intro fallback[of "sint (ethtoolRxnfc.data (as_Rxnfc b1))" e2])
               (cases r3; simp add: GetFlowHash_def Let_def)
        next
          case False
          with rings probe Some show ?thesis
            by (intro probe_err[of e2 err]) (auto simp: GetFlowHash_def Let_def)
        qed
      next
        case None
        note probe = probe[unfolded None]
        let ?head = "fst (as_Rxfh b2)"
        let ?n = "unat (indir_size ?head)"
        let ?sz = "sizeofEthtoolRxfh + Size (NewIndirectTable ?n) + unat (key_size ?head)"
        show ?thesis
        proof (cases "ioctl K e2 intf (GRSSH_query (Config.Context (NewConfig opts)) ?head ?sz)")
          case (fields e3 r3 b3)
          note query = this
          show ?thesis
          proof (cases r3)
            case (Some err)
            with rings probe query show ?thesis
              by (intro query_err[of e3 err]) (simp add: GetFlowHash_def Let_def)
          next
            case None
            with rings probe query show ?thesis
              by (intro decode[of e2 "Config.Context (NewConfig opts)" ?head ?n
                    "unat (key_size ?head)" e3 b3 "sint (ethtoolRxnfc.data (as_Rxnfc b1))"])
                 (simp_all add: GetFlowHash_def Let_def)
          qed
        qed
      qed
    qed
  qed
qed

lemma GetFlowHash_reads_in_bounds:
  "snd (GetFlowHash K e intf opts) \<noteq> Panic OutOfBoundsRead"
proof (cases rule: GetFlowHash_cases[of K e intf opts])
  case (fallback e2 rc)
  then show ?thesis
    using getFlowHashIndirectTable_no_oob[of K e2 intf]
    by (cases "snd (getFlowHashIndirectTable K e2 intf)") simp_all
next
  case (decode e2 e3 b3 rc n ksz ctx head)
  from ioctl_Rxfh_shape[OF decode(1)[unfolded GRSSH_query_def]] obtain h' m' where
    "b3 = Rxfh h' m'"
    "length m' = length (calloc sizeofEthtoolRxfh (sizeofEthtoolRxfh + Size (NewIndirectTable n) + ksz))"
    by auto
  then have "length (snd (as_Rxfh b3)) =
      (sizeofEthtoolRxfh + Size (NewIndirectTable n) + ksz) - sizeofEthtoolRxfh"
    by (simp add: calloc_def)
  from GetFlowHash_decode_no_oob[OF refl this] show ?thesis unfolding decode(2) .
qed simp_all

lemma GetFlowHash_never_table_ERANGE:
  "snd (GetFlowHash K e intf opts) \<noteq>
     Err (Errorf ''get RX flow indirect table, '' (Errno ERANGE))"
proof (cases rule: GetFlowHash_cases[of K e intf opts])
  case (fallback e2 rc)
  then show ?thesis
    using getFlowHashIndirectTable_no_table_ERANGE[of K e2 intf]
    by (cases "snd (getFlowHashIndirectTable K e2 intf)") simp_all
next
  case (decode e2 e3 b3 rc n ksz ctx head)
  from GetFlowHash_decode_no_table_ERANGE[OF refl] show ?thesis unfolding decode(2) .
qed simp_all

end
